theory Spec2Isabelle
  imports Complex_Main "HOL-Library.Word"
begin

unbundle bit_operations_syntax

section \<open>Numbers\<close>

text \<open>
  A JavaScript \<open>number\<close> is a double. The value of a finite double is a \<open>real\<close>; the result
  of an operation of the source is the exact result rounded to the nearest double, a tie going
  to the even significand. \<open>fl\<close> is that rounding, to 53 significant bits; the exponent is not
  bounded, so numbers above \<open>2 ^ 1024\<close> or below \<open>2 ^ - 1022\<close> in magnitude are outside the model.

  Rounded in this way are the operations on whose result the sampler takes a floor, a ceiling
  or a comparison with the minimum distance -- the side of a grid cell, the dimensions of the
  grid, the index of the cell of a point, the distance of two points -- and the arithmetic of
  \<open>calculatePointCount\<close>. The quotient of a draw, an integer below \<open>2 ^ 32\<close> over \<open>2 ^ 32\<close>, is
  exact. The arithmetic that turns draws into attributes and into the coordinates of the first
  point and of the candidates, before \<open>Math.round\<close> (\<open>nextFloat\<close>, \<open>pointInCircle\<close>, the sine and
  cosine of an angle, the centre bias), is read as exact arithmetic on reals, \<open>Math.cos\<close>,
  \<open>Math.sin\<close> and \<open>Math.PI\<close> as \<open>cos\<close>, \<open>sin\<close> and \<open>pi\<close>.

  Values the source only ever produces as integers (rounded coordinates, grid indices, loop
  counters, canvas width and height) are \<open>int\<close>. The 32-bit operations of the generator
  (\<open>| 0\<close>, \<open>>>>\<close>, \<open>^\<close>, \<open>Math.imul\<close>) are operations on \<open>32 word\<close>.
\<close>

definition rne :: "real \<Rightarrow> int" where
  \<comment> \<open>the nearest integer, a tie going to the even one\<close>
  "rne y =
     (let f = \<lfloor>y\<rfloor>; r = y - of_int f
      in if r < 1 / 2 then f else if 1 / 2 < r then f + 1 else if even f then f else f + 1)"

definition fl :: "real \<Rightarrow> real" where
  \<comment> \<open>the nearest double: with \<open>2 ^ e \<le> \<bar>x\<bar> < 2 ^ (e + 1)\<close>, the nearest multiple of \<open>2 ^ (e - 52)\<close>\<close>
  "fl x =
     (if x = 0 then 0
      else (let p = \<lfloor>log 2 \<bar>x\<bar>\<rfloor> - 52
            in sgn x * of_int (rne (\<bar>x\<bar> / 2 powi p)) * 2 powi p))"

definition Math_sqrt :: "real \<Rightarrow> real" where
  "Math_sqrt x = fl (sqrt x)"

definition js_round :: "real \<Rightarrow> int" where
  \<comment> \<open>\<open>Math.round\<close>: the nearest integer, a tie going up; exact on every double\<close>
  "js_round v = \<lfloor>v + 1 / 2\<rfloor>"

section \<open>Mulberry32 (random.ts)\<close>

type_synonym Mulberry32 = "32 word"

definition createRandom :: "int \<Rightarrow> Mulberry32" where
  \<comment> \<open>the constructor stores the seed; \<open>this.state |= 0\<close> in \<open>next\<close> reads it as an int32\<close>
  "createRandom seed = word_of_int seed"

definition next_state :: "Mulberry32 \<Rightarrow> Mulberry32" where
  "next_state s = s + 0x6d2b79f5"

definition next_value :: "Mulberry32 \<Rightarrow> 32 word" where
  "next_value s =
     (let st = next_state s;
          t = (st XOR drop_bit 15 st) * (1 OR st);
          t = (t + (t XOR drop_bit 7 t) * (61 OR t)) XOR t
      in t XOR drop_bit 14 t)"

definition "next" :: "Mulberry32 \<Rightarrow> real \<times> Mulberry32" where
  "next s = (real (unat (next_value s)) / 4294967296, next_state s)"

definition nextInt :: "int \<Rightarrow> int \<Rightarrow> Mulberry32 \<Rightarrow> int \<times> Mulberry32" where
  "nextInt lo hi s = (let (u, s1) = next s in (\<lfloor>u * real_of_int (hi - lo)\<rfloor> + lo, s1))"

definition nextFloat :: "real \<Rightarrow> real \<Rightarrow> Mulberry32 \<Rightarrow> real \<times> Mulberry32" where
  "nextFloat lo hi s = (let (u, s1) = next s in (u * (hi - lo) + lo, s1))"

definition nextBoolean :: "Mulberry32 \<Rightarrow> bool \<times> Mulberry32" where
  "nextBoolean s = (let (u, s1) = next s in (u < 1 / 2, s1))"

definition pointInCircle :: "real \<Rightarrow> Mulberry32 \<Rightarrow> (real \<times> real) \<times> Mulberry32" where
  "pointInCircle radius s =
     (let (angle, s1) = nextFloat 0 (pi * 2) s;
          (u, s2) = next s1;
          r = sqrt u * radius
      in ((cos angle * r, sin angle * r), s2))"

text \<open>The state and the value of the \<open>n\<close>-th draw (counting from 0) after \<open>createRandom seed\<close>.\<close>

definition state_after :: "int \<Rightarrow> nat \<Rightarrow> Mulberry32" where
  "state_after seed n = ((\<lambda>s. snd (next s)) ^^ n) (createRandom seed)"

definition draw :: "int \<Rightarrow> nat \<Rightarrow> real" where
  "draw seed n = fst (next (state_after seed n))"

section \<open>Poisson-disk sampler (poisson.ts)\<close>

text \<open>
  The coordinates of a \<open>Point\<close> are always results of \<open>Math.round\<close>, so they are integers.
  (The fields are \<open>px\<close> and \<open>py\<close>, since \<open>x\<close> and \<open>y\<close> are wanted as variables.)
\<close>

record Point =
  px :: int
  py :: int

text \<open>
  The numbers of a configuration are finite doubles, so they are rationals; width and height
  are pixel counts, \<open>maxAttempts\<close> is a finite whole number. An absent \<open>maxAttempts\<close> or
  \<open>centerBias\<close> is \<open>None\<close>. A \<open>minDistance\<close> written \<open>8 * Math.SQRT2\<close> in the source is the
  rational \<open>6369051672525773 / 562949953421312\<close>, the value of that double.
\<close>

record PoissonConfig =
  width :: int
  height :: int
  minDistance :: rat
  maxAttempts :: "int option"
  centerBias :: "rat option"

text \<open>
  The fields of the sampler object. The grid is an array of \<open>gridHeight\<close> row arrays; a row
  is read and written at integer indices, and a slot that was never written, or holds
  \<open>null\<close>, is \<open>None\<close>. So the rows are functions from the index, and \<open>grid st gy\<close> is an
  existing row exactly when \<open>0 \<le> gy < gridHeight st\<close>.
\<close>

record Sampler =
  rng :: Mulberry32
  grid :: "int \<Rightarrow> int \<Rightarrow> Point option"
  cellSize :: real
  gridWidth :: int
  gridHeight :: int
  activeList :: "Point list"

datatype js_error = RangeError | TypeError

definition valid_array_length :: "int \<Rightarrow> bool" where
  \<comment> \<open>\<open>Array(n)\<close> throws a RangeError unless \<open>n\<close> is an integer from 0 to \<open>2 ^ 32 - 1\<close>\<close>
  "valid_array_length n \<longleftrightarrow> 0 \<le> n \<and> n \<le> 4294967295"

definition distance :: "Point \<Rightarrow> Point \<Rightarrow> real" where
  \<comment> \<open>\<open>Math.sqrt((point.x - existingPoint.x) ** 2 + (point.y - existingPoint.y) ** 2)\<close>\<close>
  "distance p q =
     Math_sqrt (fl (fl ((fl (real_of_int (px p) - real_of_int (px q)))\<^sup>2)
                    + fl ((fl (real_of_int (py p) - real_of_int (py q)))\<^sup>2)))"

definition generateRandomPoint :: "int \<Rightarrow> int \<Rightarrow> real \<Rightarrow> Mulberry32 \<Rightarrow> Point \<times> Mulberry32" where
  "generateRandomPoint w h cBias s =
     (let (biased, s1) =
            (if cBias > 0 then (let (u, s') = next s in (u < cBias, s')) else (False, s))
      in if biased then
           (let centerX = real_of_int w / 2;
                centerY = real_of_int h / 2;
                radius = real_of_int (min w h) * 0.3;
                (pt, s2) = pointInCircle radius s1
            in (\<lparr>px = js_round (centerX + fst pt), py = js_round (centerY + snd pt)\<rparr>, s2))
         else
           (let (fx, s2) = nextFloat 0 (real_of_int w) s1;
                (fy, s3) = nextFloat 0 (real_of_int h) s2
            in (\<lparr>px = js_round fx, py = js_round fy\<rparr>, s3)))"

definition generateRandomPointAround ::
  "Point \<Rightarrow> real \<Rightarrow> int \<Rightarrow> int \<Rightarrow> real \<Rightarrow> Mulberry32 \<Rightarrow> Point \<times> Mulberry32" where
  "generateRandomPointAround point d w h cBias s =
     (let (angle, s1) = nextFloat 0 (pi * 2) s;
          (radius, s2) = nextFloat d (d * 2) s1;
          x = real_of_int (px point) + cos angle * radius;
          y = real_of_int (py point) + sin angle * radius;
          (biased, s3) =
            (if cBias > 0 then (let (u, s') = next s2 in (u < cBias * 0.5, s')) else (False, s2));
          centerX = real_of_int w / 2;
          centerY = real_of_int h / 2;
          biasStrength = 0.1;
          x = (if biased then x + (centerX - x) * biasStrength else x);
          y = (if biased then y + (centerY - y) * biasStrength else y)
      in (\<lparr>px = js_round (max 0 (min (real_of_int w - 1) x)),
           py = js_round (max 0 (min (real_of_int h - 1) y))\<rparr>, s3))"

definition isValidPoint :: "Point \<Rightarrow> real \<Rightarrow> int \<Rightarrow> int \<Rightarrow> Sampler \<Rightarrow> bool" where
  "isValidPoint point d w h st =
     (if px point < 0 \<or> px point \<ge> w \<or> py point < 0 \<or> py point \<ge> h then False
      else
        (let gridX = \<lfloor>fl (real_of_int (px point) / cellSize st)\<rfloor>;
             gridY = \<lfloor>fl (real_of_int (py point) / cellSize st)\<rfloor>;
             startX = max 0 (gridX - 2);
             endX = min (gridWidth st - 1) (gridX + 2);
             startY = max 0 (gridY - 2);
             endY = min (gridHeight st - 1) (gridY + 2)
         in list_all (\<lambda>gy. list_all (\<lambda>gx.
              (case grid st gy gx of
                 None \<Rightarrow> True
               | Some existingPoint \<Rightarrow> \<not> distance point existingPoint < d))
              [startX..endX]) [startY..endY]))"

definition addPoint :: "Point \<Rightarrow> Point list \<Rightarrow> Sampler \<Rightarrow> js_error + (Sampler \<times> Point list)" where
  \<comment> \<open>writing into a row that does not exist throws a TypeError; a row takes any index\<close>
  "addPoint point points st =
     (let gridX = \<lfloor>fl (real_of_int (px point) / cellSize st)\<rfloor>;
          gridY = \<lfloor>fl (real_of_int (py point) / cellSize st)\<rfloor>
      in if 0 \<le> gridY \<and> gridY < gridHeight st
         then Inr (st\<lparr>activeList := activeList st @ [point],
                       grid := (grid st)(gridY := (grid st gridY)(gridX := Some point))\<rparr>,
                   points @ [point])
         else Inl TypeError)"

text \<open>
  The \<open>for\<close> loop of \<open>sample\<close>, with the number of iterations left: the result says whether
  a candidate was accepted.
\<close>

fun attempts ::
  "nat \<Rightarrow> Point \<Rightarrow> real \<Rightarrow> int \<Rightarrow> int \<Rightarrow> real \<Rightarrow> Sampler \<Rightarrow> Point list
   \<Rightarrow> js_error + (bool \<times> Sampler \<times> Point list)" where
  "attempts 0 point d w h cBias st points = Inr (False, st, points)"
| "attempts (Suc n) point d w h cBias st points =
     (let (newPoint, s1) = generateRandomPointAround point d w h cBias (rng st);
          st1 = st\<lparr>rng := s1\<rparr>
      in if isValidPoint newPoint d w h st1
         then (case addPoint newPoint points st1 of
                 Inl e \<Rightarrow> Inl e
               | Inr (st2, points2) \<Rightarrow> Inr (True, st2, points2))
         else attempts n point d w h cBias st1 points)"

definition splice1 :: "nat \<Rightarrow> 'a list \<Rightarrow> 'a list" where
  \<comment> \<open>\<open>splice(i, 1)\<close>: the list without its element at index \<open>i\<close>\<close>
  "splice1 i xs = take i xs @ drop (Suc i) xs"

text \<open>
  The \<open>while\<close> loop of \<open>sample\<close>. \<open>None\<close> is a loop that never ends. The result of a finished
  loop is the list of points, with the state of the shared generator. An index outside the
  active list would give \<open>undefined\<close> for the point, whose \<open>x\<close> cannot be read; \<open>nextInt\<close> never
  gives one (lemma \<open>nextInt_index\<close>).
\<close>

partial_function (option) sample_loop ::
  "real \<Rightarrow> int \<Rightarrow> int \<Rightarrow> int \<Rightarrow> real \<Rightarrow> Sampler \<Rightarrow> Point list
   \<Rightarrow> (js_error + (Point list \<times> Mulberry32)) option" where
  "sample_loop d w h maxAtt cBias st points =
     (if activeList st = [] then Some (Inr (points, rng st))
      else
        (let (randomIndex, s1) = nextInt 0 (int (length (activeList st))) (rng st);
             st1 = st\<lparr>rng := s1\<rparr>
         in if randomIndex < 0 \<or> randomIndex \<ge> int (length (activeList st))
            then Some (Inl TypeError)
            else
              (case attempts (nat maxAtt) (activeList st ! nat randomIndex) d w h cBias st1 points of
                 Inl e \<Rightarrow> Some (Inl e)
               | Inr (found, st2, points2) \<Rightarrow>
                   if found then sample_loop d w h maxAtt cBias st2 points2
                   else sample_loop d w h maxAtt cBias
                          (st2\<lparr>activeList := splice1 (nat randomIndex) (activeList st2)\<rparr>) points2)))"

text \<open>
  \<open>sample\<close>. With \<open>minDistance\<close> 0 the side of a cell is 0 and the number of rows infinite or
  not a number, which \<open>Array\<close> refuses; otherwise the rows are allocated first, and a row of
  \<open>gridWidth\<close> slots for each of them.
\<close>

definition sample :: "PoissonConfig \<Rightarrow> Mulberry32 \<Rightarrow> (js_error + (Point list \<times> Mulberry32)) option" where
  "sample config s =
     (let w = width config;
          h = height config;
          d = real_of_rat (minDistance config);
          maxAtt = (case maxAttempts config of None \<Rightarrow> 30 | Some n \<Rightarrow> n);
          cBias = (case centerBias config of None \<Rightarrow> 0 | Some b \<Rightarrow> real_of_rat b)
      in if d = 0 then Some (Inl RangeError)
         else
           (let cell = fl (d / Math_sqrt 2);
                gw = \<lceil>fl (real_of_int w / cell)\<rceil>;
                gh = \<lceil>fl (real_of_int h / cell)\<rceil>
            in if \<not> valid_array_length gh then Some (Inl RangeError)
               else if 0 < gh \<and> \<not> valid_array_length gw then Some (Inl RangeError)
               else
                 (let st = \<lparr>rng = s, grid = (\<lambda>gy gx. None), cellSize = cell,
                            gridWidth = gw, gridHeight = gh, activeList = []\<rparr>;
                      (firstPoint, s1) = generateRandomPoint w h cBias (rng st);
                      st1 = st\<lparr>rng := s1\<rparr>
                  in case addPoint firstPoint [] st1 of
                       Inl e \<Rightarrow> Some (Inl e)
                     | Inr (st2, points) \<Rightarrow> sample_loop d w h maxAtt cBias st2 points)))"

definition sample_points :: "PoissonConfig \<Rightarrow> Mulberry32 \<Rightarrow> (js_error + Point list) option" where
  \<comment> \<open>the value \<open>sample\<close> returns, without the state in which it leaves the generator\<close>
  "sample_points config s = map_option (map_sum id fst) (sample config s)"

definition generatePoissonPoints ::
  "Mulberry32 \<Rightarrow> PoissonConfig \<Rightarrow> (js_error + (Point list \<times> Mulberry32)) option" where
  "generatePoissonPoints s config = sample config s"

section \<open>Density-based point count (poisson.ts)\<close>

text \<open>The arguments are doubles; a density written \<open>2.8\<close> in the source is \<open>fl 2.8\<close>.\<close>

definition calculatePointCount :: "real \<Rightarrow> real \<Rightarrow> real \<Rightarrow> int" where
  "calculatePointCount w h densityPerK =
     (let area = fl (w * h) in js_round (fl (fl (densityPerK * area) / 1000)))"

section \<open>Readings of a configuration\<close>

text \<open>
  The values \<open>sample\<close> takes from its configuration: the defaults of the optional fields, the
  side of a grid cell, the dimensions of the grid, the first point, the sampler as it stands
  before the first point is drawn.
\<close>

definition config_centerBias :: "PoissonConfig \<Rightarrow> real" where
  "config_centerBias config = (case centerBias config of None \<Rightarrow> 0 | Some b \<Rightarrow> real_of_rat b)"

definition config_maxAttempts :: "PoissonConfig \<Rightarrow> int" where
  "config_maxAttempts config = (case maxAttempts config of None \<Rightarrow> 30 | Some n \<Rightarrow> n)"

definition config_cellSize :: "PoissonConfig \<Rightarrow> real" where
  "config_cellSize config = fl (real_of_rat (minDistance config) / Math_sqrt 2)"

definition config_gridWidth :: "PoissonConfig \<Rightarrow> int" where
  "config_gridWidth config = \<lceil>fl (real_of_int (width config) / config_cellSize config)\<rceil>"

definition config_gridHeight :: "PoissonConfig \<Rightarrow> int" where
  "config_gridHeight config = \<lceil>fl (real_of_int (height config) / config_cellSize config)\<rceil>"

definition firstPoint :: "PoissonConfig \<Rightarrow> Mulberry32 \<Rightarrow> Point" where
  "firstPoint config s =
     fst (generateRandomPoint (width config) (height config) (config_centerBias config) s)"

definition initial_sampler :: "PoissonConfig \<Rightarrow> Mulberry32 \<Rightarrow> Sampler" where
  "initial_sampler config s =
     \<lparr>rng = s, grid = (\<lambda>gy gx. None), cellSize = config_cellSize config,
      gridWidth = config_gridWidth config, gridHeight = config_gridHeight config,
      activeList = []\<rparr>"

definition firstRow :: "PoissonConfig \<Rightarrow> Mulberry32 \<Rightarrow> int" where
  \<comment> \<open>the index of the row in which \<open>addPoint\<close> stores the first point\<close>
  "firstRow config s = \<lfloor>fl (real_of_int (py (firstPoint config s)) / config_cellSize config)\<rfloor>"

definition firstCol :: "PoissonConfig \<Rightarrow> Mulberry32 \<Rightarrow> int" where
  \<comment> \<open>the index in that row\<close>
  "firstCol config s = \<lfloor>fl (real_of_int (px (firstPoint config s)) / config_cellSize config)\<rfloor>"

definition started_sampler :: "PoissonConfig \<Rightarrow> Mulberry32 \<Rightarrow> Sampler" where
  \<comment> \<open>the sampler when the first point has been stored, if its row exists\<close>
  "started_sampler config s =
     (let st1 = (initial_sampler config s)
                  \<lparr>rng := snd (generateRandomPoint (width config) (height config)
                                 (config_centerBias config) s)\<rparr>
      in st1\<lparr>activeList := activeList st1 @ [firstPoint config s],
             grid := (grid st1)(firstRow config s :=
                        (grid st1 (firstRow config s))(firstCol config s := Some (firstPoint config s)))\<rparr>)"

section \<open>The invariant of the sampling loop\<close>

definition cellX :: "Sampler \<Rightarrow> Point \<Rightarrow> int" where
  "cellX st p = \<lfloor>fl (real_of_int (px p) / cellSize st)\<rfloor>"

definition cellY :: "Sampler \<Rightarrow> Point \<Rightarrow> int" where
  "cellY st p = \<lfloor>fl (real_of_int (py p) / cellSize st)\<rfloor>"

text \<open>
  What the loop needs of the grid, for a cell side \<open>c\<close> on a canvas of \<open>w\<close> by \<open>h\<close>: the cell of
  a point of the closed rectangle is a cell of the grid, and two points of the rectangle in
  one cell are less than \<open>d\<close> apart.
\<close>

definition grid_sound :: "real \<Rightarrow> int \<Rightarrow> int \<Rightarrow> real \<Rightarrow> bool" where
  "grid_sound d w h c \<longleftrightarrow>
     0 < c
     \<and> (\<forall>x. 0 \<le> x \<and> x \<le> w \<longrightarrow> \<lfloor>fl (real_of_int x / c)\<rfloor> < \<lceil>fl (real_of_int w / c)\<rceil>)
     \<and> (\<forall>y. 0 \<le> y \<and> y \<le> h \<longrightarrow> \<lfloor>fl (real_of_int y / c)\<rfloor> < \<lceil>fl (real_of_int h / c)\<rceil>)
     \<and> (\<forall>p q. 0 \<le> px p \<and> px p \<le> w \<and> 0 \<le> py p \<and> py p \<le> h
              \<and> 0 \<le> px q \<and> px q \<le> w \<and> 0 \<le> py q \<and> py q \<le> h
              \<and> \<lfloor>fl (real_of_int (px p) / c)\<rfloor> = \<lfloor>fl (real_of_int (px q) / c)\<rfloor>
              \<and> \<lfloor>fl (real_of_int (py p) / c)\<rfloor> = \<lfloor>fl (real_of_int (py q) / c)\<rfloor>
            \<longrightarrow> distance p q < d)"

text \<open>
  What holds of the sampler and of the points accepted so far, each time the \<open>while\<close> loop
  tests its condition, when the grid is sound: the grid has the dimensions \<open>sample\<close> gave
  it; the accepted points are pairwise different; every accepted point lies in the closed
  rectangle and the grid holds it in its cell; every accepted point but the first lies in the
  half-open rectangle; the grid holds accepted points only, each in its own cell.
\<close>

definition sampler_inv :: "real \<Rightarrow> int \<Rightarrow> int \<Rightarrow> Sampler \<Rightarrow> Point list \<Rightarrow> bool" where
  "sampler_inv d w h st points \<longleftrightarrow>
     grid_sound d w h (cellSize st)
     \<and> gridWidth st = \<lceil>fl (real_of_int w / cellSize st)\<rceil>
     \<and> gridHeight st = \<lceil>fl (real_of_int h / cellSize st)\<rceil>
     \<and> distinct points
     \<and> (\<forall>p \<in> set points.
           0 \<le> px p \<and> px p \<le> w \<and> 0 \<le> py p \<and> py p \<le> h
           \<and> grid st (cellY st p) (cellX st p) = Some p)
     \<and> (\<forall>p \<in> set (tl points). px p < w \<and> py p < h)
     \<and> (\<forall>gy gx q. grid st gy gx = Some q \<longrightarrow>
           q \<in> set points \<and> cellY st q = gy \<and> cellX st q = gx)"

section \<open>Attributes of stars and sparkles (space-paint.ts)\<close>

definition SPACE_PALETTE :: "int list" where
  "SPACE_PALETTE = [0xf8f8ff, 0xe6f1ff, 0xaecdff, 0x9fb0c7, 0xb9a3ff, 0x7fd6ff]"

definition js_index :: "'a list \<Rightarrow> int \<Rightarrow> 'a option" where
  \<comment> \<open>\<open>array[i]\<close>: \<open>undefined\<close>, here \<open>None\<close>, outside the array\<close>
  "js_index xs i = (if 0 \<le> i \<and> i < int (length xs) then Some (xs ! nat i) else None)"

record StarConfig =
  star_size :: int
  star_color :: "int option"
  star_alpha :: real

record SparkleConfig =
  sparkle_size :: int
  sparkle_color :: "int option"
  sparkle_alpha :: real
  coreSize :: int

datatype StarLayer = Micro | Small

definition generateStarConfig :: "Mulberry32 \<Rightarrow> StarLayer \<Rightarrow> int list \<Rightarrow> StarConfig \<times> Mulberry32" where
  "generateStarConfig s layer palette =
     (let isMicro = (layer = Micro);
          (size, s1) =
            (if isMicro then (let (b, s') = nextBoolean s in (if b then 1 else 2, s'))
             else nextInt 1 3 s);
          (r, s2) = nextFloat 0 1 s1;
          isWhite = (r < (if isMicro then 0.8 else 0.6));
          (color, s3) =
            (if isWhite then (js_index palette 0, s2)
             else (let (r2, s') = nextFloat 0 1 s2
                   in (if r2 < 0.7 then js_index palette 1 else js_index palette 3, s')));
          (alpha, s4) = (if isMicro then nextFloat 0.75 1.0 s3 else nextFloat 0.5 0.8 s3)
      in (\<lparr>star_size = size, star_color = color, star_alpha = alpha\<rparr>, s4))"

definition generateSparkleConfig :: "Mulberry32 \<Rightarrow> int list \<Rightarrow> SparkleConfig \<times> Mulberry32" where
  "generateSparkleConfig s palette =
     (let (size, s1) = nextInt 3 6 s;
          (i, s2) = nextInt 0 (int (length palette)) s1;
          color = js_index palette i;
          (alpha, s3) = nextFloat 0.2 0.35 s2;
          coreSize = 1
      in (\<lparr>sparkle_size = size, sparkle_color = color, sparkle_alpha = alpha,
           coreSize = coreSize\<rparr>, s3))"

text \<open>A nebula patch, as far as the generator decides it: the position, the radius, the
  opacities of the gradient and of the noise overlay, and the ribbon streaks.\<close>

record Streak =
  streak_width :: int
  streak_length :: real
  streak_angle :: real
  streak_alpha :: real

record NebulaPatch =
  patch_x :: int
  patch_y :: int
  patch_radius :: real
  nebula_alpha :: real
  noise_alpha :: real
  streaks :: "Streak list"

definition createRibbonStreak :: "real \<Rightarrow> Mulberry32 \<Rightarrow> Streak \<times> Mulberry32" where
  "createRibbonStreak radius s =
     (let (w, s1) = nextInt 6 15 s;
          (len, s2) = nextFloat (radius * 0.5) (radius * 1.5) s1;
          (angle, s3) = nextFloat 0 (pi * 2) s2;
          (a, s4) = nextFloat 0.05 0.1 s3
      in (\<lparr>streak_width = w, streak_length = len, streak_angle = angle, streak_alpha = a\<rparr>, s4))"

fun ribbon_streaks :: "nat \<Rightarrow> real \<Rightarrow> Mulberry32 \<Rightarrow> Streak list \<times> Mulberry32" where
  "ribbon_streaks 0 radius s = ([], s)"
| "ribbon_streaks (Suc n) radius s =
     (let (streak, s1) = createRibbonStreak radius s;
          (rest, s2) = ribbon_streaks n radius s1
      in (streak # rest, s2))"

definition createNebulaPatch :: "int \<Rightarrow> int \<Rightarrow> real \<Rightarrow> Mulberry32 \<Rightarrow> NebulaPatch \<times> Mulberry32" where
  "createNebulaPatch x y radius s =
     (let (a1, s1) = nextFloat 0.03 0.08 s;
          (a2, s2) = nextFloat 0.06 0.1 s1;
          (streakCount, s3) = nextInt 2 5 s2;
          (ss, s4) = ribbon_streaks (nat streakCount) radius s3
      in (\<lparr>patch_x = x, patch_y = y, patch_radius = radius, nebula_alpha = a1,
           noise_alpha = a2, streaks = ss\<rparr>, s4))"

section \<open>The scene (SpaceCanvas.tsx)\<close>

definition snap :: "int \<Rightarrow> int" where
  "snap n = js_round (real_of_int n)"

record Sprite =
  sprite_x :: int
  sprite_y :: int
  sprite_scale :: int
  sprite_tint :: "int option"
  sprite_alpha :: real

text \<open>
  The four containers of the stage with their children, in the order of \<open>addChild\<close>. A child
  of the nebula container is a patch or the noise overlay of the whole canvas.
\<close>

datatype NebulaChild = Patch NebulaPatch | Noise int int real

record Layers =
  nebula :: "NebulaChild list"
  sparkle :: "Sprite list"
  small :: "Sprite list"
  micro :: "Sprite list"

definition clearLayer :: "'a list \<Rightarrow> 'a list" where
  \<comment> \<open>\<open>removeChildren\<close>, and the removed children destroyed\<close>
  "clearLayer children = []"

text \<open>The three \<open>for\<close> loops over the sampled points: one sprite per point, appended in turn.\<close>

fun star_sprites :: "StarLayer \<Rightarrow> Point list \<Rightarrow> Mulberry32 \<Rightarrow> Sprite list \<times> Mulberry32" where
  "star_sprites layer [] s = ([], s)"
| "star_sprites layer (point # points) s =
     (let (config, s1) = generateStarConfig s layer SPACE_PALETTE;
          sp = \<lparr>sprite_x = snap (px point), sprite_y = snap (py point),
                sprite_scale = star_size config, sprite_tint = star_color config,
                sprite_alpha = star_alpha config\<rparr>;
          (rest, s2) = star_sprites layer points s1
      in (sp # rest, s2))"

fun sparkle_sprites :: "Point list \<Rightarrow> Mulberry32 \<Rightarrow> Sprite list \<times> Mulberry32" where
  "sparkle_sprites [] s = ([], s)"
| "sparkle_sprites (point # points) s =
     (let (config, s1) = generateSparkleConfig s SPACE_PALETTE;
          sp = \<lparr>sprite_x = snap (px point), sprite_y = snap (py point),
                sprite_scale = sparkle_size config, sprite_tint = sparkle_color config,
                sprite_alpha = sparkle_alpha config\<rparr>;
          (rest, s2) = sparkle_sprites points s1
      in (sp # rest, s2))"

fun nebula_patches :: "int \<Rightarrow> int \<Rightarrow> Point list \<Rightarrow> Mulberry32 \<Rightarrow> NebulaChild list \<times> Mulberry32" where
  "nebula_patches W H [] s = ([], s)"
| "nebula_patches W H (point # points) s =
     (let (r, s1) = nextFloat 0.28 0.35 s;
          radius = r * real_of_int (min W H);
          (patch, s2) = createNebulaPatch (snap (px point)) (snap (py point)) radius s1;
          (rest, s3) = nebula_patches W H points s2
      in (Patch patch # rest, s3))"

text \<open>
  \<open>regenerate\<close> on a live application of canvas size \<open>W\<close> by \<open>H\<close>, from the layers as the
  last run left them. An error thrown by the sampler ends it. In the loop of the sparkles
  the name \<open>sparkle\<close> is the new sprite, which is added to itself: the attributes are drawn,
  the sparkle container gets no child.
\<close>

definition regenerate :: "int \<Rightarrow> int \<Rightarrow> int \<Rightarrow> Layers \<Rightarrow> (js_error + Layers) option" where
  "regenerate seed W H layers =
     (let nebula0 = clearLayer (nebula layers);
          sparkle0 = clearLayer (sparkle layers);
          small0 = clearLayer (small layers);
          micro0 = clearLayer (micro layers);
          s0 = createRandom seed
      in case generatePoissonPoints s0
                \<lparr>width = W, height = H, minDistance = 8, maxAttempts = None,
                 centerBias = Some (1 / 2)\<rparr> of
           None \<Rightarrow> None
         | Some (Inl e) \<Rightarrow> Some (Inl e)
         | Some (Inr (microPoints, s1)) \<Rightarrow>
             (let (microSprites, s2) = star_sprites Micro microPoints s1
              in case generatePoissonPoints s2
                        \<lparr>width = W, height = H, minDistance = 12, maxAttempts = None,
                         centerBias = Some (1 / 2)\<rparr> of
                   None \<Rightarrow> None
                 | Some (Inl e) \<Rightarrow> Some (Inl e)
                 | Some (Inr (smallPoints, s3)) \<Rightarrow>
                     (let (smallSprites, s4) = star_sprites Small smallPoints s3
                      in case generatePoissonPoints s4
                                \<lparr>width = W, height = H, minDistance = 20, maxAttempts = None,
                                 centerBias = Some (3 / 10)\<rparr> of
                           None \<Rightarrow> None
                         | Some (Inl e) \<Rightarrow> Some (Inl e)
                         | Some (Inr (sparklePoints, s5)) \<Rightarrow>
                             (let (sparkleSprites, s6) = sparkle_sprites sparklePoints s5
                              in case generatePoissonPoints s6
                                        \<lparr>width = W, height = H, minDistance = 80,
                                         maxAttempts = None, centerBias = Some (1 / 5)\<rparr> of
                                   None \<Rightarrow> None
                                 | Some (Inl e) \<Rightarrow> Some (Inl e)
                                 | Some (Inr (nebulaPoints, s7)) \<Rightarrow>
                                     (let (patches, s8) = nebula_patches W H nebulaPoints s7
                                      in Some (Inr \<lparr>nebula = nebula0 @ patches @ [Noise W H 0.07],
                                                   sparkle = sparkle0,
                                                   small = small0 @ smallSprites,
                                                   micro = micro0 @ microSprites\<rparr>))))))"

section \<open>The layer generator of the specification\<close>

text \<open>
  The distributions of the three attributes, as \<open>generateStarConfig\<close> and
  \<open>generateSparkleConfig\<close> have them, each as a step on the generator.
\<close>

definition star_size_draw :: "StarLayer \<Rightarrow> Mulberry32 \<Rightarrow> int \<times> Mulberry32" where
  "star_size_draw layer s =
     (if layer = Micro then (let (b, s') = nextBoolean s in (if b then 1 else 2, s'))
      else nextInt 1 3 s)"

definition star_color_draw :: "StarLayer \<Rightarrow> int list \<Rightarrow> Mulberry32 \<Rightarrow> int option \<times> Mulberry32" where
  "star_color_draw layer palette s =
     (let (r, s1) = nextFloat 0 1 s
      in if r < (if layer = Micro then 0.8 else 0.6) then (js_index palette 0, s1)
         else (let (r2, s2) = nextFloat 0 1 s1
               in (if r2 < 0.7 then js_index palette 1 else js_index palette 3, s2)))"

definition star_alpha_draw :: "StarLayer \<Rightarrow> Mulberry32 \<Rightarrow> real \<times> Mulberry32" where
  "star_alpha_draw layer s = (if layer = Micro then nextFloat 0.75 1.0 s else nextFloat 0.5 0.8 s)"

definition sparkle_size_draw :: "Mulberry32 \<Rightarrow> int \<times> Mulberry32" where
  "sparkle_size_draw s = nextInt 3 6 s"

definition sparkle_color_draw :: "int list \<Rightarrow> Mulberry32 \<Rightarrow> int option \<times> Mulberry32" where
  "sparkle_color_draw palette s =
     (let (i, s1) = nextInt 0 (int (length palette)) s in (js_index palette i, s1))"

definition sparkle_alpha_draw :: "Mulberry32 \<Rightarrow> real \<times> Mulberry32" where
  "sparkle_alpha_draw s = nextFloat 0.2 0.35 s"

text \<open>
  The layer generator in the words of the specification: for a point, a size, then a colour,
  then an alpha, each drawn once, each from the state the one before left; the points in
  their order, each from the state the point before left.
\<close>

definition spec_placement ::
  "(Mulberry32 \<Rightarrow> int \<times> Mulberry32) \<Rightarrow> (Mulberry32 \<Rightarrow> int option \<times> Mulberry32)
   \<Rightarrow> (Mulberry32 \<Rightarrow> real \<times> Mulberry32) \<Rightarrow> Point \<Rightarrow> Mulberry32 \<Rightarrow> Sprite \<times> Mulberry32" where
  "spec_placement draw_size draw_color draw_alpha point s =
     (let (size, s1) = draw_size s;
          (color, s2) = draw_color s1;
          (alpha, s3) = draw_alpha s2
      in (\<lparr>sprite_x = px point, sprite_y = py point, sprite_scale = size, sprite_tint = color,
           sprite_alpha = alpha\<rparr>, s3))"

fun spec_generate_layer ::
  "(Point \<Rightarrow> Mulberry32 \<Rightarrow> 'r \<times> Mulberry32) \<Rightarrow> Point list \<Rightarrow> Mulberry32
   \<Rightarrow> 'r list \<times> Mulberry32" where
  "spec_generate_layer placement [] s = ([], s)"
| "spec_generate_layer placement (point # points) s =
     (let (record, s1) = placement point s;
          (rest, s2) = spec_generate_layer placement points s1
      in (record # rest, s2))"

text \<open>
  The nebula layer does not fit that generator. What it draws for a point, in the order of the
  source: the radius, as a share of the shorter side of the canvas; the opacity of the
  gradient; the opacity of the noise overlay; the number of streaks; and for every streak its
  width, its length, its angle and its opacity. No colour is drawn: the colour of a streak is
  the constant \<open>0xc39bff\<close>.
\<close>

definition nebula_placement :: "int \<Rightarrow> int \<Rightarrow> Point \<Rightarrow> Mulberry32 \<Rightarrow> NebulaChild \<times> Mulberry32" where
  "nebula_placement W H point s =
     (let (r, s1) = nextFloat 0.28 0.35 s;
          radius = r * real_of_int (min W H);
          (a1, s2) = nextFloat 0.03 0.08 s1;
          (a2, s3) = nextFloat 0.06 0.1 s2;
          (streakCount, s4) = nextInt 2 5 s3;
          (ss, s5) = ribbon_streaks (nat streakCount) radius s4
      in (Patch \<lparr>patch_x = px point, patch_y = py point, patch_radius = radius,
                  nebula_alpha = a1, noise_alpha = a2, streaks = ss\<rparr>, s5))"


section \<open>Properties of the generator\<close>

lemma next_range: "0 \<le> fst (next s) \<and> fst (next s) < 1"
proof -
  define r where "r = real (unat (next_value s))"
  have "unat (next_value s) < 2 ^ LENGTH(32)"
    by (rule unsigned_less)
  then have "unat (next_value s) < 4294967296"
    by simp
  then have "real (unat (next_value s)) < real 4294967296"
    by (simp only: of_nat_less_iff)
  then have hi: "r < 4294967296"
    by (simp only: of_nat_numeral r_def)
  have lo: "0 \<le> r"
    unfolding r_def by (rule of_nat_0_le_iff)
  have "fst (next s) = r / 4294967296"
    by (simp add: next_def r_def)
  with lo hi show ?thesis
    by simp
qed

lemma snd_next: "snd (next s) = next_state s"
  by (simp add: next_def)

lemma state_after_closed: "state_after seed n = word_of_int seed + of_nat n * 0x6d2b79f5"
  by (induction n) (simp_all add: state_after_def createRandom_def snd_next next_state_def algebra_simps)

section \<open>Rounding to the nearest double\<close>

lemma rne_cases: "rne y = \<lfloor>y\<rfloor> \<or> rne y = \<lfloor>y\<rfloor> + 1"
  by (simp add: rne_def Let_def)

lemma rne_error: "\<bar>of_int (rne y) - y\<bar> \<le> 1 / 2"
  unfolding rne_def Let_def by (auto simp: abs_if) linarith+

lemma rne_of_int [simp]: "rne (of_int n) = n"
  by (simp add: rne_def)

lemma rne_mono:
  assumes "y \<le> z"
  shows "rne y \<le> rne z"
proof (cases "\<lfloor>y\<rfloor> = \<lfloor>z\<rfloor>")
  case True
  with assms have "y - of_int \<lfloor>y\<rfloor> \<le> z - of_int \<lfloor>z\<rfloor>"
    by simp
  with True show ?thesis
    unfolding rne_def Let_def by auto
next
  case False
  with assms have "\<lfloor>y\<rfloor> + 1 \<le> \<lfloor>z\<rfloor>"
    using floor_mono [OF assms] by linarith
  moreover have "rne y \<le> \<lfloor>y\<rfloor> + 1" "\<lfloor>z\<rfloor> \<le> rne z"
    using rne_cases [of y] rne_cases [of z] by auto
  ultimately show ?thesis
    by linarith
qed


lemma two_powr_int: "2 powr real_of_int k = (2::real) powi k"
  by (rule powr_real_of_int') simp_all

lemma expo_bounds:
  assumes "0 < x"
  shows "2 powi \<lfloor>log 2 x\<rfloor> \<le> x" and "x < 2 powi (\<lfloor>log 2 x\<rfloor> + 1)"
proof -
  have "2 powr real_of_int \<lfloor>log 2 x\<rfloor> \<le> x \<and> x < 2 powr real_of_int (\<lfloor>log 2 x\<rfloor> + 1)"
    using floor_log_eq_powr_iff [of x 2 "\<lfloor>log 2 x\<rfloor>"] assms by simp
  then have "2 powi \<lfloor>log 2 x\<rfloor> \<le> x \<and> x < 2 powi (\<lfloor>log 2 x\<rfloor> + 1)"
    unfolding two_powr_int .
  then show "2 powi \<lfloor>log 2 x\<rfloor> \<le> x" and "x < 2 powi (\<lfloor>log 2 x\<rfloor> + 1)"
    by simp_all
qed

lemma expo_unique:
  assumes "2 powi e \<le> x" and "x < 2 powi (e + 1)"
  shows "\<lfloor>log 2 x\<rfloor> = e"
proof -
  have "0 < x"
    using assms(1) zero_less_power_int [of "2::real" e] by linarith
  moreover have "2 powr real_of_int e \<le> x \<and> x < 2 powr real_of_int (e + 1)"
    unfolding two_powr_int using assms by simp
  ultimately show ?thesis
    using floor_log_eq_powr_iff [of x 2 e] by simp
qed

text \<open>The form of a rounded positive number, with its exponent.\<close>

lemma fl_pos:
  assumes "2 powi e \<le> x" and "x < 2 powi (e + 1)"
  shows "fl x = of_int (rne (x / 2 powi (e - 52))) * 2 powi (e - 52)"
proof -
  have "0 < x"
    using assms(1) zero_less_power_int [of "2::real" e] by linarith
  moreover have "\<lfloor>log 2 x\<rfloor> = e"
    using assms by (rule expo_unique)
  ultimately show ?thesis
    by (simp add: fl_def Let_def)
qed

lemma fl_0 [simp]: "fl 0 = 0"
  by (simp add: fl_def)

lemma fl_minus: "fl (- x) = - fl x"
  by (simp add: fl_def Let_def sgn_if)

lemma scaled_bounds:
  fixes x :: real
  assumes "2 powi e \<le> x" and "x < 2 powi (e + 1)"
  shows "2 ^ 52 \<le> x / 2 powi (e - 52)" and "x / 2 powi (e - 52) < 2 ^ 53"
proof -
  have pos: "(0::real) < 2 powi (e - 52)"
    by simp
  have a: "(2::real) powi e = 2 ^ 52 * 2 powi (e - 52)"
    using power_int_add [of "2::real" 52 "e - 52"] by simp
  have b: "(2::real) powi (e + 1) = 2 ^ 53 * 2 powi (e - 52)"
    using power_int_add [of "2::real" 53 "e - 52"] by (simp add: add.commute)
  show "2 ^ 52 \<le> x / 2 powi (e - 52)"
    using assms(1) pos unfolding a by (simp add: field_simps)
  show "x / 2 powi (e - 52) < 2 ^ 53"
    using assms(2) pos unfolding b by (simp add: field_simps)
qed

lemma fl_error_pos:
  assumes "0 < x"
  shows "\<bar>fl x - x\<bar> \<le> x / 2 ^ 53"
proof -
  define e where "e = \<lfloor>log 2 x\<rfloor>"
  have b: "2 powi e \<le> x" "x < 2 powi (e + 1)"
    unfolding e_def using assms by (rule expo_bounds)+
  define u where "u = (2::real) powi (e - 52)"
  have upos: "0 < u"
    by (simp add: u_def)
  have f: "fl x = of_int (rne (x / u)) * u"
    unfolding u_def using b by (rule fl_pos)
  have "\<bar>of_int (rne (x / u)) - x / u\<bar> \<le> 1 / 2"
    by (rule rne_error)
  then have "\<bar>of_int (rne (x / u)) - x / u\<bar> * u \<le> 1 / 2 * u"
    using upos by (intro mult_right_mono) simp_all
  moreover have "\<bar>of_int (rne (x / u)) - x / u\<bar> * u = \<bar>(of_int (rne (x / u)) - x / u) * u\<bar>"
    using upos by (simp add: abs_mult)
  moreover have "(of_int (rne (x / u)) - x / u) * u = of_int (rne (x / u)) * u - x"
    using upos by (simp add: left_diff_distrib)
  ultimately have "\<bar>of_int (rne (x / u)) * u - x\<bar> \<le> u / 2"
    by simp
  moreover have "u * 2 ^ 52 \<le> x"
    using scaled_bounds(1) [OF b] upos by (simp add: u_def field_simps)
  ultimately show ?thesis
    unfolding f by (simp add: field_simps)
qed


lemma fl_bounds_pos:
  assumes "2 powi e \<le> x" and "x < 2 powi (e + 1)"
  shows "2 powi e \<le> fl x" and "fl x \<le> 2 powi (e + 1)"
proof -
  let ?u = "(2::real) powi (e - 52)"
  have upos: "0 < ?u"
    by simp
  note sb = scaled_bounds [OF assms]
  have f: "fl x = of_int (rne (x / ?u)) * ?u"
    using assms by (rule fl_pos)
  have a: "(2::real) powi e = 2 ^ 52 * ?u"
    using power_int_add [of "2::real" 52 "e - 52"] by simp
  have b: "(2::real) powi (e + 1) = 2 ^ 53 * ?u"
    using power_int_add [of "2::real" 53 "e - 52"] by (simp add: add.commute)
  have "rne (of_int (2 ^ 52)) \<le> rne (x / ?u)"
    using sb(1) by (intro rne_mono) simp
  then have "2 ^ 52 \<le> rne (x / ?u)"
    by (simp only: rne_of_int)
  then have "(2::real) ^ 52 \<le> of_int (rne (x / ?u))"
    by (metis of_int_le_iff of_int_numeral of_int_power)
  then have "2 ^ 52 * ?u \<le> of_int (rne (x / ?u)) * ?u"
    using upos by (intro mult_right_mono) simp_all
  then show "2 powi e \<le> fl x"
    unfolding f a .
  have "rne (x / ?u) \<le> rne (of_int (2 ^ 53))"
    using sb(2) by (intro rne_mono) simp
  then have "rne (x / ?u) \<le> 2 ^ 53"
    by (simp only: rne_of_int)
  then have "of_int (rne (x / ?u)) \<le> (2::real) ^ 53"
    by (metis of_int_le_iff of_int_numeral of_int_power)
  then have "of_int (rne (x / ?u)) * ?u \<le> 2 ^ 53 * ?u"
    using upos by (intro mult_right_mono) simp_all
  then show "fl x \<le> 2 powi (e + 1)"
    unfolding f b .
qed

lemma fl_positive:
  assumes "0 < x"
  shows "0 < fl x"
proof -
  have "2 powi \<lfloor>log 2 x\<rfloor> \<le> fl x"
    using expo_bounds [OF assms] by (rule fl_bounds_pos)
  moreover have "(0::real) < 2 powi \<lfloor>log 2 x\<rfloor>"
    by simp
  ultimately show ?thesis
    by linarith
qed

lemma fl_negative:
  assumes "x < 0"
  shows "fl x < 0"
  using fl_positive [of "- x"] assms by (simp add: fl_minus)

lemma fl_eq_0_iff [simp]: "fl x = 0 \<longleftrightarrow> x = 0"
proof
  assume z: "fl x = 0"
  show "x = 0"
  proof (rule ccontr)
    assume "x \<noteq> 0"
    then consider "0 < x" | "x < 0"
      by linarith
    then show False
    proof cases
      case 1
      then have "0 < fl x"
        by (rule fl_positive)
      with z show False
        by simp
    next
      case 2
      then have "fl x < 0"
        by (rule fl_negative)
      with z show False
        by simp
    qed
  qed
next
  assume "x = 0"
  then show "fl x = 0"
    by simp
qed

lemma fl_mono_pos:
  assumes x: "0 < x" and xy: "x \<le> y"
  shows "fl x \<le> fl y"
proof -
  define e where "e = \<lfloor>log 2 x\<rfloor>"
  define f where "f = \<lfloor>log 2 y\<rfloor>"
  from x xy have y: "0 < y"
    by simp
  have bx: "2 powi e \<le> x" "x < 2 powi (e + 1)"
    unfolding e_def using x by (rule expo_bounds)+
  have "by": "2 powi f \<le> y" "y < 2 powi (f + 1)"
    unfolding f_def using y by (rule expo_bounds)+
  have ef: "e \<le> f"
  proof (rule ccontr)
    assume "\<not> e \<le> f"
    then have "f + 1 \<le> e"
      by simp
    then have "(2::real) powi (f + 1) \<le> 2 powi e"
      by (intro power_int_increasing) simp_all
    with bx(1) xy "by"(2) show False
      by linarith
  qed
  show ?thesis
  proof (cases "e = f")
    case True
    let ?u = "(2::real) powi (e - 52)"
    have "x / ?u \<le> y / ?u"
      using xy by (intro divide_right_mono) simp_all
    then have "rne (x / ?u) \<le> rne (y / ?u)"
      by (rule rne_mono)
    then have "of_int (rne (x / ?u)) * ?u \<le> of_int (rne (y / ?u)) * ?u"
      by (intro mult_right_mono) simp_all
    then show ?thesis
      using fl_pos [OF bx] fl_pos [OF "by"] True by simp
  next
    case False
    with ef have "e + 1 \<le> f"
      by simp
    then have "(2::real) powi (e + 1) \<le> 2 powi f"
      by (intro power_int_increasing) simp_all
    with fl_bounds_pos(2) [OF bx] fl_bounds_pos(1) [OF "by"] show ?thesis
      by linarith
  qed
qed

lemma fl_mono:
  assumes "x \<le> y"
  shows "fl x \<le> fl y"
proof -
  consider "0 < x" | "x \<le> 0" "0 \<le> y" | "y < 0"
    by linarith
  then show ?thesis
  proof cases
    case 1
    then show ?thesis
      using assms by (rule fl_mono_pos)
  next
    case 2
    have "fl x \<le> 0"
      using fl_negative [of x] 2(1) by (cases "x = 0") auto
    moreover have "0 \<le> fl y"
      using fl_positive [of y] 2(2) by (cases "y = 0") auto
    ultimately show ?thesis
      by simp
  next
    case 3
    then have "fl (- y) \<le> fl (- x)"
      using assms by (intro fl_mono_pos) simp_all
    then show ?thesis
      by (simp add: fl_minus)
  qed
qed

text \<open>Numbers with a significand of at most 53 bits are not changed.\<close>

lemma fl_scaled_int_pos:
  assumes m: "0 < m" "m < 2 ^ 53"
  shows "fl (of_int m * 2 powi k) = of_int m * 2 powi k"
proof -
  define x :: real where "x = of_int m * 2 powi k"
  have xpos: "0 < x"
    using m(1) by (simp add: x_def)
  define e where "e = \<lfloor>log 2 x\<rfloor>"
  have b: "2 powi e \<le> x" "x < 2 powi (e + 1)"
    unfolding e_def using xpos by (rule expo_bounds)+
  have "real_of_int m < 2 ^ 53"
    using m(2) by (metis of_int_less_iff of_int_numeral of_int_power)
  then have "x < 2 ^ 53 * 2 powi k"
    unfolding x_def by (intro mult_strict_right_mono) simp_all
  also have "\<dots> = 2 powi (k + 53)"
    using power_int_add [of "2::real" 53 k] by (simp add: add.commute)
  finally have lt: "(2::real) powi e < 2 powi (k + 53)"
    using b(1) by linarith
  have "e < k + 53"
  proof (rule ccontr)
    assume "\<not> e < k + 53"
    then have "k + 53 \<le> e"
      by simp
    then have "(2::real) powi (k + 53) \<le> 2 powi e"
      by (intro power_int_increasing) simp_all
    with lt show False
      by simp
  qed
  then have j: "0 \<le> k - e + 52"
    by simp
  define j where "j = nat (k - e + 52)"
  have "(2::real) powi k = 2 powi (int j) * 2 powi (e - 52)"
    using power_int_add [of "2::real" "int j" "e - 52"] j by (simp add: j_def)
  then have kj: "(2::real) powi k = 2 ^ j * 2 powi (e - 52)"
    by simp
  have "x / 2 powi (e - 52) = of_int m * 2 ^ j"
    unfolding x_def kj by simp
  also have "\<dots> = of_int (m * 2 ^ j)"
    by simp
  finally have s: "x / 2 powi (e - 52) = of_int (m * 2 ^ j)" .
  have "fl x = of_int (rne (x / 2 powi (e - 52))) * 2 powi (e - 52)"
    using b by (rule fl_pos)
  also have "\<dots> = of_int (m * 2 ^ j) * 2 powi (e - 52)"
    unfolding s by (simp only: rne_of_int)
  also have "\<dots> = x"
    unfolding x_def kj by simp
  finally show ?thesis
    unfolding x_def .
qed

lemma fl_scaled_int:
  assumes "\<bar>m\<bar> < 2 ^ 53"
  shows "fl (of_int m * 2 powi k) = of_int m * 2 powi k"
proof -
  consider "0 < m" | "m = 0" | "m < 0"
    by linarith
  then show ?thesis
  proof cases
    case 1
    with assms show ?thesis
      by (intro fl_scaled_int_pos) simp_all
  next
    case 2
    then show ?thesis
      by simp
  next
    case 3
    with assms have "fl (of_int (- m) * 2 powi k) = of_int (- m) * 2 powi k"
      by (intro fl_scaled_int_pos) simp_all
    then show ?thesis
      by (simp add: fl_minus)
  qed
qed

lemma fl_of_int:
  assumes "\<bar>m\<bar> < 2 ^ 53"
  shows "fl (of_int m) = of_int m"
  using fl_scaled_int [OF assms, of 0] by simp

lemma fl_error:
  "\<bar>fl x - x\<bar> \<le> \<bar>x\<bar> / 2 ^ 53"
proof -
  consider "0 < x" | "x = 0" | "x < 0"
    by linarith
  then show ?thesis
  proof cases
    case 1
    then show ?thesis
      using fl_error_pos [of x] by simp
  next
    case 2
    then show ?thesis
      by simp
  next
    case 3
    then have "\<bar>fl (- x) - (- x)\<bar> \<le> (- x) / 2 ^ 53"
      by (intro fl_error_pos) simp
    moreover have "\<bar>fl (- x) - (- x)\<bar> = \<bar>fl x - x\<bar>"
      by (simp add: fl_minus)
    ultimately show ?thesis
      using 3 by simp
  qed
qed

lemma fl_bracket:
  assumes "0 \<le> x"
  shows "x * (1 - 1 / 2 ^ 53) \<le> fl x" and "fl x \<le> x * (1 + 1 / 2 ^ 53)"
proof -
  define t where "t = x / 2 ^ 53"
  from fl_error [of x] assms have "\<bar>fl x - x\<bar> \<le> t"
    by (simp add: t_def)
  then have "x - fl x \<le> t" "fl x - x \<le> t"
    by linarith+
  then have "x - fl x \<le> x / 2 ^ 53" "fl x - x \<le> x / 2 ^ 53"
    by (simp_all only: t_def)
  then show "x * (1 - 1 / 2 ^ 53) \<le> fl x" and "fl x \<le> x * (1 + 1 / 2 ^ 53)"
    by (simp_all add: algebra_simps)
qed

text \<open>The value of a rounding, from the exponent and the nearest significand.\<close>

lemma rne_near:
  assumes "\<bar>y - of_int m\<bar> < 1 / 2"
  shows "rne y = m"
proof -
  have "\<bar>of_int (rne y) - y\<bar> \<le> 1 / 2"
    by (rule rne_error)
  with assms have "\<bar>real_of_int (rne y) - of_int m\<bar> < 1"
    by linarith
  then have "\<bar>real_of_int (rne y - m)\<bar> < 1"
    by simp
  then have "\<bar>rne y - m\<bar> < 1"
    by (metis of_int_abs of_int_less_iff of_int_1)
  then show ?thesis
    by simp
qed

lemma fl_value:
  assumes "2 powi e \<le> x" and "x < 2 powi (e + 1)"
    and "\<bar>x / 2 powi (e - 52) - of_int m\<bar> < 1 / 2"
  shows "fl x = of_int m * 2 powi (e - 52)"
  using fl_pos [OF assms(1,2)] rne_near [OF assms(3)] by simp

lemma fl_sqrt2: "fl (sqrt 2) = 6369051672525773 / 4503599627370496"
proof -
  have lo: "6369051672525773 / 4503599627370496 - 1 / 9007199254740992 < sqrt 2"
    by (rule real_less_rsqrt) (simp add: power2_eq_square)
  have hi: "sqrt 2 < 6369051672525773 / 4503599627370496 + 1 / 9007199254740992"
    by (rule real_less_lsqrt) (simp_all add: power2_eq_square)
  have "fl (sqrt 2) = of_int 6369051672525773 * 2 powi (0 - 52)"
  proof (rule fl_value)
    show "2 powi 0 \<le> sqrt 2"
      by simp
    show "sqrt 2 < 2 powi (0 + 1)"
      using hi by simp
    show "\<bar>sqrt 2 / 2 powi (0 - 52) - of_int 6369051672525773\<bar> < 1 / 2"
      using lo hi by (simp add: power_int_minus field_simps) argo
  qed
  then show ?thesis
    by (simp add: power_int_minus)
qed

lemma fl_numeral_1 [simp]: "fl 1 = 1"
  using fl_of_int [of 1] by simp

lemma fl_nonneg:
  assumes "0 \<le> x"
  shows "0 \<le> fl x"
  using fl_mono [OF assms] by simp

section \<open>Arithmetic of the grid\<close>

lemma double_square_zero:
  fixes m n :: nat
  shows "m * m = 2 * (n * n) \<Longrightarrow> n = 0"
proof (induction m arbitrary: n rule: less_induct)
  case (less m)
  show ?case
  proof (rule ccontr)
    assume n: "n \<noteq> 0"
    from less.prems have "even (m * m)"
      by simp
    then have "even m"
      by simp
    then obtain k where k: "m = 2 * k"
      by (auto elim: evenE)
    with less.prems have half: "n * n = 2 * (k * k)"
      by simp
    have "n * n < m * m"
      using less.prems n by simp
    then have "n < m"
      by (metis mult_less_mono1 mult_less_mono2 less_imp_le not_less_iff_gr_or_eq nat_mult_less_cancel1 mult_le_mono not_le)
    from less.IH [OF this half] have "k = 0" .
    with half n show False
      by simp
  qed
qed

lemma no_double_square:
  fixes a b :: int
  assumes "b \<noteq> 0"
  shows "a * a \<noteq> 2 * (b * b)"
proof
  assume "a * a = 2 * (b * b)"
  then have "nat \<bar>a\<bar> * nat \<bar>a\<bar> = 2 * (nat \<bar>b\<bar> * nat \<bar>b\<bar>)"
    by (metis abs_mult_self_eq nat_abs_mult_distrib nat_mult_distrib abs_ge_zero nat_numeral zero_le_numeral abs_numeral)
  then have "nat \<bar>b\<bar> = 0"
    by (rule double_square_zero)
  with assms show False
    by simp
qed

lemma Math_sqrt2_bounds:
  shows "1 \<le> Math_sqrt 2" and "Math_sqrt 2 \<le> 2"
proof -
  have "fl 1 \<le> fl (sqrt 2)"
    by (rule fl_mono) simp
  then show "1 \<le> Math_sqrt 2"
    by (simp add: Math_sqrt_def)
  have "sqrt 2 \<le> sqrt (2\<^sup>2)"
    by (simp only: real_sqrt_le_iff) simp
  then have "fl (sqrt 2) \<le> fl (of_int 2)"
    by (intro fl_mono) simp
  also have "\<dots> = 2"
    using fl_of_int [of 2] by simp
  finally show "Math_sqrt 2 \<le> 2"
    by (simp add: Math_sqrt_def)
qed

lemma Math_sqrt2_value: "Math_sqrt 2 = 6369051672525773 / 4503599627370496"
  unfolding Math_sqrt_def by (rule fl_sqrt2)

lemma cell_bounds:
  assumes "0 < d"
  shows "fl (d / 2) \<le> fl (d / Math_sqrt 2)" and "fl (d / Math_sqrt 2) \<le> fl d"
    and "0 < fl (d / Math_sqrt 2)"
proof -
  note S = Math_sqrt2_bounds
  have Spos: "0 < Math_sqrt 2"
    using S(1) by simp
  have "0 < 2 * Math_sqrt 2"
    using Spos by simp
  with S(2) have "d / 2 \<le> d / Math_sqrt 2"
    using assms by (intro divide_left_mono) simp_all
  then show "fl (d / 2) \<le> fl (d / Math_sqrt 2)"
    by (rule fl_mono)
  have "d / Math_sqrt 2 \<le> d / 1"
    using assms S(1) Spos by (intro divide_left_mono) simp_all
  then show "fl (d / Math_sqrt 2) \<le> fl d"
    using fl_mono [of "d / Math_sqrt 2" d] by simp
  have "0 < d / Math_sqrt 2"
    using assms Spos by simp
  then show "0 < fl (d / Math_sqrt 2)"
    by (rule fl_positive)
qed

text \<open>
  The index computed for a coordinate \<open>x\<close>, before the floor, is within a relative error of
  \<open>2 ^ - 51\<close> of the exact quotient \<open>x * sqrt 2 / d\<close>: three roundings lie between them.
\<close>

lemma cell_index_error:
  fixes d x :: real
  assumes d: "0 < d" and x: "0 \<le> x"
  shows "x * sqrt 2 / d * (1 - 1 / 2 ^ 51) \<le> fl (x / fl (d / Math_sqrt 2))"
    and "fl (x / fl (d / Math_sqrt 2)) \<le> x * sqrt 2 / d * (1 + 1 / 2 ^ 51)"
proof -
  define t where "t = x * sqrt 2 / d"
  define u :: real where "u = 1 / 2 ^ 53"
  have u0: "0 < u" and u1: "u \<le> 1 / 5"
    by (simp_all add: u_def)
  have br: "y * (1 - u) \<le> fl y" "fl y \<le> y * (1 + u)" if "0 \<le> y" for y
    using fl_bracket [OF that] by (simp_all add: u_def)
  define S where "S = Math_sqrt 2"
  define c where "c = fl (d / S)"
  have S1: "sqrt 2 * (1 - u) \<le> S" and S2: "S \<le> sqrt 2 * (1 + u)"
    using br [of "sqrt 2"] by (simp_all add: S_def Math_sqrt_def)
  have Spos: "0 < S"
    using Math_sqrt2_bounds(1) by (simp add: S_def)
  then have q0: "0 \<le> d / S"
    using d by simp
  have c1: "d / S * (1 - u) \<le> c" and c2: "c \<le> d / S * (1 + u)"
    using br [OF q0] by (simp_all add: c_def)
  have cpos: "0 < c"
    using cell_bounds(3) [OF d] by (simp add: c_def S_def)
  have tpos: "0 \<le> t"
    using d x by (simp add: t_def)
  have "d * (1 - u) = (d / S * (1 - u)) * S"
    using Spos by simp
  also have "\<dots> \<le> c * S"
    using c1 Spos by (intro mult_right_mono) simp_all
  also have "\<dots> \<le> c * (sqrt 2 * (1 + u))"
    using S2 cpos by (intro mult_left_mono) simp_all
  finally have L: "d * (1 - u) \<le> c * (sqrt 2 * (1 + u))" .
  have "c * (sqrt 2 * (1 - u)) \<le> c * S"
    using S1 cpos by (intro mult_left_mono) simp_all
  also have "\<dots> \<le> (d / S * (1 + u)) * S"
    using c2 Spos by (intro mult_right_mono) simp_all
  also have "\<dots> = d * (1 + u)"
    using Spos by simp
  finally have U: "c * (sqrt 2 * (1 - u)) \<le> d * (1 + u)" .
  have q: "0 \<le> x / c"
    using x cpos by simp
  have xc_hi: "x / c * (1 - u) \<le> t * (1 + u)"
  proof -
    have "x * (d * (1 - u)) \<le> x * (c * (sqrt 2 * (1 + u)))"
      using L x by (rule mult_left_mono)
    then have "(x * (1 - u)) * d \<le> (x * sqrt 2 * (1 + u)) * c"
      by (simp add: mult_ac)
    then have "(x * (1 - u)) / c \<le> (x * sqrt 2 * (1 + u)) / d"
      using cpos d by (simp add: divide_le_eq pos_le_divide_eq mult_ac)
    then show ?thesis
      by (simp add: t_def)
  qed
  have xc_lo: "t * (1 - u) \<le> x / c * (1 + u)"
  proof -
    have "x * (c * (sqrt 2 * (1 - u))) \<le> x * (d * (1 + u))"
      using U x by (rule mult_left_mono)
    then have "(x * sqrt 2 * (1 - u)) * c \<le> (x * (1 + u)) * d"
      by (simp add: mult_ac)
    then have "(x * sqrt 2 * (1 - u)) / d \<le> (x * (1 + u)) / c"
      using cpos d by (simp add: divide_le_eq pos_le_divide_eq mult_ac)
    then show ?thesis
      by (simp add: t_def)
  qed
  have f_lo: "x / c * (1 - u) \<le> fl (x / c)" and f_hi: "fl (x / c) \<le> x / c * (1 + u)"
    using br [OF q] by simp_all
  have uu: "u * u \<le> u * (1 / 5)"
    using u0 u1 by (intro mult_left_mono) simp_all
  have "fl (x / c) * (1 - u) \<le> (x / c * (1 + u)) * (1 - u)"
    using f_hi u0 u1 by (intro mult_right_mono) simp_all
  also have "\<dots> = (x / c * (1 - u)) * (1 + u)"
    by (simp add: mult_ac)
  also have "\<dots> \<le> (t * (1 + u)) * (1 + u)"
    using xc_hi u0 by (intro mult_right_mono) simp_all
  also have "\<dots> = t * ((1 + u) * (1 + u))"
    by (simp add: mult_ac)
  also have "\<dots> \<le> t * ((1 + 4 * u) * (1 - u))"
  proof (rule mult_left_mono [OF _ tpos])
    show "(1 + u) * (1 + u) \<le> (1 + 4 * u) * (1 - u)"
      using uu by (simp add: algebra_simps)
  qed
  also have "\<dots> = (t * (1 + 4 * u)) * (1 - u)"
    by (simp add: mult_ac)
  finally have "fl (x / c) \<le> t * (1 + 4 * u)"
    using u0 u1 by (simp only: mult_le_cancel_right)
  then show "fl (x / fl (d / Math_sqrt 2)) \<le> x * sqrt 2 / d * (1 + 1 / 2 ^ 51)"
    by (simp add: c_def S_def t_def u_def)
  have "(t * (1 - 4 * u)) * (1 + u) = t * ((1 - 4 * u) * (1 + u))"
    by (simp add: mult_ac)
  also have "\<dots> \<le> t * ((1 - u) * (1 - u))"
  proof (rule mult_left_mono [OF _ tpos])
    have "0 \<le> u * u"
      by simp
    then show "(1 - 4 * u) * (1 + u) \<le> (1 - u) * (1 - u)"
      using u0 by (simp add: algebra_simps)
  qed
  also have "\<dots> = (t * (1 - u)) * (1 - u)"
    by (simp add: mult_ac)
  also have "\<dots> \<le> (x / c * (1 + u)) * (1 - u)"
    using xc_lo u0 u1 by (intro mult_right_mono) simp_all
  also have "\<dots> = (x / c * (1 - u)) * (1 + u)"
    by (simp add: mult_ac)
  also have "\<dots> \<le> fl (x / c) * (1 + u)"
    using f_lo u0 by (intro mult_right_mono) simp_all
  finally have "t * (1 - 4 * u) \<le> fl (x / c)"
    using u0 by (simp only: mult_le_cancel_right)
  then show "x * sqrt 2 / d * (1 - 1 / 2 ^ 51) \<le> fl (x / fl (d / Math_sqrt 2))"
    by (simp add: c_def S_def t_def u_def)
qed

text \<open>
  With a whole number \<open>n\<close> for the minimum distance, the exact quotient \<open>h * sqrt 2 / n\<close> stays
  away from every whole number \<open>K\<close> by more than the roundings can bridge:
  \<open>(K * n)\<^sup>2 - 2 * h\<^sup>2\<close> is a whole number other than 0.
\<close>

lemma grid_ratio_not_int:
  fixes n h :: int
  assumes n: "0 < n" and h: "0 < h" "h \<le> 2 ^ 20"
  shows "fl (real_of_int h / fl (real_of_int n / Math_sqrt 2)) \<notin> \<int>"
proof
  assume "fl (real_of_int h / fl (real_of_int n / Math_sqrt 2)) \<in> \<int>"
  then obtain K :: int where K: "fl (real_of_int h / fl (real_of_int n / Math_sqrt 2)) = of_int K"
    by (auto elim: Ints_cases)
  define e :: real where "e = 1 / 2 ^ 51"
  define B where "B = real_of_int h * sqrt 2"
  define A where "A = real_of_int (K * n)"
  have e: "0 < e" "e \<le> 1"
    by (simp_all add: e_def)
  have npos: "0 < real_of_int n" and hpos: "0 < real_of_int h"
    using n h by simp_all
  have Bpos: "0 < B"
    using hpos by (simp add: B_def)
  from cell_index_error [of "real_of_int n" "real_of_int h"] n h K
  have lo: "B / real_of_int n * (1 - e) \<le> of_int K" and hi: "of_int K \<le> B / real_of_int n * (1 + e)"
    by (simp_all add: B_def e_def)
  have "(B / real_of_int n * (1 - e)) * real_of_int n \<le> of_int K * real_of_int n"
    using lo npos by (intro mult_right_mono) simp_all
  then have lo': "B * (1 - e) \<le> A"
    using npos by (simp add: A_def)
  have "of_int K * real_of_int n \<le> (B / real_of_int n * (1 + e)) * real_of_int n"
    using hi npos by (intro mult_right_mono) simp_all
  then have hi': "A \<le> B * (1 + e)"
    using npos by (simp add: A_def)
  have Be: "0 \<le> B * e"
    using Bpos e by simp
  have d1: "\<bar>A - B\<bar> \<le> B * e"
    using lo' hi' by (simp add: algebra_simps abs_le_iff)
  have "0 \<le> B * (1 - e)"
    using Bpos e by simp
  with lo' have A0: "0 \<le> A"
    by linarith
  have "A + B \<le> B * (2 + e)"
    using hi' by (simp add: algebra_simps)
  also have "\<dots> \<le> B * 3"
    using Bpos e by (intro mult_left_mono) simp_all
  finally have s1: "A + B \<le> B * 3" .
  have s0: "0 \<le> A + B"
    using A0 Bpos by simp
  have "A * A - B * B = (A - B) * (A + B)"
    by (simp add: algebra_simps)
  then have "\<bar>A * A - B * B\<bar> = \<bar>A - B\<bar> * \<bar>A + B\<bar>"
    by (simp only: abs_mult)
  also have "\<dots> = \<bar>A - B\<bar> * (A + B)"
    using s0 by simp
  also have "\<dots> \<le> (B * e) * (B * 3)"
    using d1 s1 s0 Be by (intro mult_mono) simp_all
  also have "\<dots> = (B * B) * (3 * e)"
    by (simp add: mult_ac)
  finally have d2: "\<bar>A * A - B * B\<bar> \<le> (B * B) * (3 * e)" .
  have BB: "B * B = real_of_int (2 * (h * h))"
    by (simp add: B_def mult_ac)
  have "h * h \<le> 2 ^ 20 * 2 ^ 20"
    using h by (intro mult_mono) simp_all
  then have "real_of_int (2 * (h * h)) \<le> real_of_int (2 * (2 ^ 20 * 2 ^ 20))"
    by (simp only: of_int_le_iff)
  then have "B * B \<le> 2 ^ 41"
    unfolding BB by simp
  then have "(B * B) * (3 * e) \<le> 2 ^ 41 * (3 * e)"
    using e by (intro mult_right_mono) simp_all
  also have "\<dots> < 1"
    by (simp add: e_def)
  finally have "\<bar>A * A - B * B\<bar> < 1"
    using d2 by linarith
  moreover have "A * A - B * B = real_of_int ((K * n) * (K * n) - 2 * (h * h))"
    unfolding BB by (simp add: A_def)
  ultimately have "\<bar>real_of_int ((K * n) * (K * n) - 2 * (h * h))\<bar> < 1"
    by simp
  then have "\<bar>(K * n) * (K * n) - 2 * (h * h)\<bar> < 1"
    by (metis of_int_abs of_int_less_iff of_int_1)
  then have "(K * n) * (K * n) = 2 * (h * h)"
    by simp
  moreover have "h \<noteq> 0"
    using h by simp
  ultimately show False
    using no_double_square [of h "K * n"] by simp
qed

lemma cell_index_in_grid:
  fixes n w x :: int
  assumes n: "0 < n" and w: "0 < w" "w \<le> 2 ^ 20" and x: "x \<le> w"
  shows "\<lfloor>fl (real_of_int x / fl (real_of_int n / Math_sqrt 2))\<rfloor>
         < \<lceil>fl (real_of_int w / fl (real_of_int n / Math_sqrt 2))\<rceil>"
proof -
  let ?c = "fl (real_of_int n / Math_sqrt 2)"
  have cpos: "0 < ?c"
    using n by (intro cell_bounds) simp
  have "real_of_int x / ?c \<le> real_of_int w / ?c"
    using x cpos by (intro divide_right_mono) simp_all
  then have "fl (real_of_int x / ?c) \<le> fl (real_of_int w / ?c)"
    by (rule fl_mono)
  then have "\<lfloor>fl (real_of_int x / ?c)\<rfloor> \<le> \<lfloor>fl (real_of_int w / ?c)\<rfloor>"
    by (rule floor_mono)
  also have "\<dots> < \<lceil>fl (real_of_int w / ?c)\<rceil>"
  proof -
    have ni: "fl (real_of_int w / ?c) \<notin> \<int>"
      using n w by (rule grid_ratio_not_int)
    then have "fl (real_of_int w / ?c) \<noteq> of_int \<lfloor>fl (real_of_int w / ?c)\<rfloor>"
      by (metis Ints_of_int)
    then show ?thesis
      by (simp add: ceiling_altdef)
  qed
  finally show ?thesis .
qed

text \<open>Two whole coordinates with the same cell index differ by less than \<open>n / sqrt 2\<close>.\<close>

lemma same_cell_close:
  fixes n a b :: int
  assumes n: "0 < n" and ab: "0 \<le> a" "a \<le> b" "b \<le> 2 ^ 20"
    and same: "\<lfloor>fl (real_of_int a / fl (real_of_int n / Math_sqrt 2))\<rfloor>
               = \<lfloor>fl (real_of_int b / fl (real_of_int n / Math_sqrt 2))\<rfloor>"
  shows "2 * ((b - a) * (b - a)) < n * n"
proof (cases "2 ^ 21 \<le> n")
  case True
  have "0 \<le> b - a" "b - a \<le> 2 ^ 20"
    using ab by simp_all
  then have "(b - a) * (b - a) \<le> 2 ^ 20 * 2 ^ 20"
    by (intro mult_mono) simp_all
  moreover have "(2 ^ 21) * (2 ^ 21) \<le> n * n"
    using True by (intro mult_mono) simp_all
  ultimately show ?thesis
    by simp
next
  case False
  then have nb: "n < 2 ^ 21"
    by simp
  let ?c = "fl (real_of_int n / Math_sqrt 2)"
  define e :: real where "e = 1 / 2 ^ 51"
  define m where "m = b - a"
  define M where "M = real_of_int m * sqrt 2"
  define r where "r = real_of_int n"
  have rpos: "0 < r"
    using n by (simp add: r_def)
  have m0: "0 \<le> m"
    using ab by (simp add: m_def)
  have M0: "0 \<le> M"
    using m0 by (simp add: M_def)
  have fa: "fl (real_of_int a / ?c) \<le> real_of_int a * sqrt 2 / r * (1 + e)"
    using cell_index_error(2) [of r "real_of_int a"] rpos ab by (simp add: e_def r_def)
  have fb: "real_of_int b * sqrt 2 / r * (1 - e) \<le> fl (real_of_int b / ?c)"
    using cell_index_error(1) [of r "real_of_int b"] rpos ab by (simp add: e_def r_def)
  have "fl (real_of_int b / ?c) < fl (real_of_int a / ?c) + 1"
    using same by linarith
  with fa fb have "real_of_int b * sqrt 2 / r * (1 - e) < real_of_int a * sqrt 2 / r * (1 + e) + 1"
    by linarith
  then have "(real_of_int b * sqrt 2 * (1 - e) - real_of_int a * sqrt 2 * (1 + e)) / r < 1"
    by (simp add: diff_divide_distrib)
  then have "real_of_int b * sqrt 2 * (1 - e) - real_of_int a * sqrt 2 * (1 + e) < r"
    using rpos by (simp only: pos_divide_less_eq)
  then have 1: "M < r + (real_of_int (a + b) * sqrt 2) * e"
    by (simp add: M_def m_def algebra_simps)
  have "real_of_int (a + b) \<le> real_of_int (2 ^ 21)"
    using ab by (simp only: of_int_le_iff) simp
  moreover have "sqrt 2 \<le> 2"
  proof -
    have "sqrt 2 \<le> sqrt (2\<^sup>2)"
      by (simp only: real_sqrt_le_iff) simp
    then show ?thesis
      by simp
  qed
  moreover have "0 \<le> real_of_int (a + b)"
    using ab by simp
  ultimately have "real_of_int (a + b) * sqrt 2 \<le> real_of_int (2 ^ 21) * 2"
    by (intro mult_mono) simp_all
  then have "(real_of_int (a + b) * sqrt 2) * e \<le> (real_of_int (2 ^ 21) * 2) * e"
    by (intro mult_right_mono) (simp_all add: e_def)
  also have "\<dots> = 1 / 2 ^ 29"
    by (simp add: e_def)
  finally have 2: "M < r + 1 / 2 ^ 29"
    using 1 by linarith
  show ?thesis
  proof (rule ccontr)
    assume "\<not> 2 * ((b - a) * (b - a)) < n * n"
    then have ge: "n * n \<le> 2 * (m * m)"
      by (simp add: m_def)
    have "m \<noteq> 0"
    proof
      assume "m = 0"
      with ge have "n * n \<le> 0"
        by simp
      with n show False
        by (simp add: mult_le_0_iff)
    qed
    then have "n * n \<noteq> 2 * (m * m)"
      by (rule no_double_square)
    with ge have "n * n + 1 \<le> 2 * (m * m)"
      by simp
    then have "real_of_int (n * n + 1) \<le> real_of_int (2 * (m * m))"
      by (simp only: of_int_le_iff)
    then have 3: "r * r + 1 \<le> M * M"
      by (simp add: r_def M_def mult_ac)
    have "M * M \<le> (r + 1 / 2 ^ 29) * (r + 1 / 2 ^ 29)"
      using 2 M0 by (intro mult_mono) simp_all
    also have "\<dots> = r * r + r * (1 / 2 ^ 28) + 1 / 2 ^ 58"
      by (simp add: algebra_simps)
    also have "\<dots> \<le> r * r + real_of_int (2 ^ 21) * (1 / 2 ^ 28) + 1 / 2 ^ 58"
    proof -
      have "r \<le> real_of_int (2 ^ 21)"
        unfolding r_def using nb by (simp only: of_int_le_iff)
      then have "r * (1 / 2 ^ 28) \<le> real_of_int (2 ^ 21) * (1 / 2 ^ 28)"
        by (intro mult_right_mono) simp_all
      then show ?thesis
        by simp
    qed
    also have "\<dots> < r * r + 1"
      by simp
    finally show False
      using 3 by simp
  qed
qed

text \<open>Between points of a canvas of at most \<open>2 ^ 20\<close> pixels a side the squares and their sum
  are exact: of the operations of \<open>distance\<close> only the square root rounds.\<close>

lemma distance_exact:
  assumes p: "0 \<le> px p" "px p \<le> 2 ^ 20" "0 \<le> py p" "py p \<le> 2 ^ 20"
    and q: "0 \<le> px q" "px q \<le> 2 ^ 20" "0 \<le> py q" "py q \<le> 2 ^ 20"
  shows "distance p q
         = fl (sqrt (real_of_int ((px p - px q) * (px p - px q) + (py p - py q) * (py p - py q))))"
proof -
  define dx where "dx = px p - px q"
  define dy where "dy = py p - py q"
  have bx: "\<bar>dx\<bar> \<le> 2 ^ 20" and "by": "\<bar>dy\<bar> \<le> 2 ^ 20"
    using p q by (simp_all add: dx_def dy_def)
  have "\<bar>dx\<bar> * \<bar>dx\<bar> \<le> 2 ^ 20 * 2 ^ 20"
    using bx by (intro mult_mono) simp_all
  then have sx: "\<bar>dx * dx\<bar> \<le> 2 ^ 20 * 2 ^ 20"
    by (simp only: abs_mult)
  have "\<bar>dy\<bar> * \<bar>dy\<bar> \<le> 2 ^ 20 * 2 ^ 20"
    using "by" by (intro mult_mono) simp_all
  then have sy: "\<bar>dy * dy\<bar> \<le> 2 ^ 20 * 2 ^ 20"
    by (simp only: abs_mult)
  have 1: "fl (real_of_int (px p) - real_of_int (px q)) = real_of_int dx"
    using fl_of_int [of dx] bx by (simp add: dx_def)
  have 2: "fl (real_of_int (py p) - real_of_int (py q)) = real_of_int dy"
    using fl_of_int [of dy] "by" by (simp add: dy_def)
  have 3: "fl ((real_of_int dx)\<^sup>2) = real_of_int (dx * dx)"
    using fl_of_int [of "dx * dx"] sx by (simp add: power2_eq_square)
  have 4: "fl ((real_of_int dy)\<^sup>2) = real_of_int (dy * dy)"
    using fl_of_int [of "dy * dy"] sy by (simp add: power2_eq_square)
  have 5: "fl (real_of_int (dx * dx) + real_of_int (dy * dy)) = real_of_int (dx * dx + dy * dy)"
    using fl_of_int [of "dx * dx + dy * dy"] sx sy by simp
  show ?thesis
    unfolding distance_def Math_sqrt_def 1 2 3 4 5 by (simp add: dx_def dy_def)
qed

lemma sqrt_below:
  fixes n N :: int
  assumes n: "0 < n" and N: "0 \<le> N" "N < n * n" "N \<le> 2 ^ 42"
  shows "fl (sqrt (real_of_int N)) < real_of_int n"
proof (cases "2 ^ 21 < n")
  case True
  have "real_of_int N \<le> real_of_int (2 ^ 42)"
    using N(3) by (simp only: of_int_le_iff)
  then have "real_of_int N \<le> (2 ^ 21)\<^sup>2"
    by simp
  then have "sqrt (real_of_int N) \<le> 2 ^ 21"
    by (intro real_le_lsqrt) simp_all
  then have "fl (sqrt (real_of_int N)) \<le> fl (of_int (2 ^ 21))"
    by (intro fl_mono) simp
  also have "\<dots> = of_int (2 ^ 21)"
    by (rule fl_of_int) simp
  also have "\<dots> < real_of_int n"
    using True by (simp only: of_int_less_iff)
  finally show ?thesis .
next
  case False
  then have nb: "n \<le> 2 ^ 21"
    by simp
  define r where "r = real_of_int n - 1 / 2 ^ 23"
  have rr: "r = real_of_int (n * 2 ^ 23 - 1) * 2 powi (- 23)"
    by (simp add: r_def power_int_minus field_simps)
  have "\<bar>n * 2 ^ 23 - 1\<bar> < 2 ^ 53"
    using n nb by simp
  then have flr: "fl r = r"
    unfolding rr by (rule fl_scaled_int)
  have n1: "1 \<le> real_of_int n"
    using n by simp
  have "real_of_int n \<le> real_of_int (2 ^ 21)"
    using nb by (simp only: of_int_le_iff)
  then have n2: "real_of_int n \<le> 2 ^ 21"
    by simp
  have r0: "0 \<le> r"
    using n1 by (simp add: r_def)
  have "N + 1 \<le> n * n"
    using N(2) by simp
  then have "real_of_int (N + 1) \<le> real_of_int (n * n)"
    by (simp only: of_int_le_iff)
  then have "real_of_int N \<le> real_of_int n * real_of_int n - 1"
    by simp
  also have "\<dots> \<le> r\<^sup>2"
  proof -
    have "r\<^sup>2 = real_of_int n * real_of_int n - real_of_int n * (1 / 2 ^ 22) + 1 / 2 ^ 46"
      by (simp add: r_def power2_eq_square algebra_simps)
    moreover have "real_of_int n * (1 / 2 ^ 22) \<le> 2 ^ 21 * (1 / 2 ^ 22)"
      using n2 by (intro mult_right_mono) simp_all
    ultimately show ?thesis
      by simp
  qed
  finally have "sqrt (real_of_int N) \<le> r"
    using r0 by (intro real_le_lsqrt) simp_all
  then have "fl (sqrt (real_of_int N)) \<le> fl r"
    by (rule fl_mono)
  also have "\<dots> < real_of_int n"
    unfolding flr by (simp add: r_def)
  finally show ?thesis .
qed

lemma grid_sound_int:
  fixes n w h :: int
  assumes n: "0 < n" and w: "0 < w" "w \<le> 2 ^ 20" and h: "0 < h" "h \<le> 2 ^ 20"
  shows "grid_sound (real_of_int n) w h (fl (real_of_int n / Math_sqrt 2))"
  unfolding grid_sound_def
proof (intro conjI allI impI)
  let ?c = "fl (real_of_int n / Math_sqrt 2)"
  show "0 < ?c"
    using n by (intro cell_bounds) simp
  show "\<lfloor>fl (real_of_int x / ?c)\<rfloor> < \<lceil>fl (real_of_int w / ?c)\<rceil>" if "0 \<le> x \<and> x \<le> w" for x
    using n w that by (intro cell_index_in_grid) simp_all
  show "\<lfloor>fl (real_of_int y / ?c)\<rfloor> < \<lceil>fl (real_of_int h / ?c)\<rceil>" if "0 \<le> y \<and> y \<le> h" for y
    using n h that by (intro cell_index_in_grid) simp_all
  fix p q :: Point
  assume a: "0 \<le> px p \<and> px p \<le> w \<and> 0 \<le> py p \<and> py p \<le> h
              \<and> 0 \<le> px q \<and> px q \<le> w \<and> 0 \<le> py q \<and> py q \<le> h
              \<and> \<lfloor>fl (real_of_int (px p) / ?c)\<rfloor> = \<lfloor>fl (real_of_int (px q) / ?c)\<rfloor>
              \<and> \<lfloor>fl (real_of_int (py p) / ?c)\<rfloor> = \<lfloor>fl (real_of_int (py q) / ?c)\<rfloor>"
  have close: "2 * ((u - v) * (u - v)) < n * n"
    if "0 \<le> u" "u \<le> 2 ^ 20" "0 \<le> v" "v \<le> 2 ^ 20"
      and "\<lfloor>fl (real_of_int u / ?c)\<rfloor> = \<lfloor>fl (real_of_int v / ?c)\<rfloor>" for u v :: int
  proof (cases "u \<le> v")
    case True
    with n that have "2 * ((v - u) * (v - u)) < n * n"
      by (intro same_cell_close) simp_all
    then show ?thesis
      by (simp add: algebra_simps)
  next
    case False
    with n that have "2 * ((u - v) * (u - v)) < n * n"
      by (intro same_cell_close) simp_all
    then show ?thesis .
  qed
  from a w h have pb: "0 \<le> px p" "px p \<le> 2 ^ 20" "0 \<le> py p" "py p \<le> 2 ^ 20"
    and qb: "0 \<le> px q" "px q \<le> 2 ^ 20" "0 \<le> py q" "py q \<le> 2 ^ 20"
    by simp_all
  define N where "N = (px p - px q) * (px p - px q) + (py p - py q) * (py p - py q)"
  have x: "2 * ((px p - px q) * (px p - px q)) < n * n"
    using pb(1,2) qb(1,2) a by (intro close) simp_all
  have y: "2 * ((py p - py q) * (py p - py q)) < n * n"
    using pb(3,4) qb(3,4) a by (intro close) simp_all
  have N1: "N < n * n"
    using x y by (simp add: N_def)
  have N0: "0 \<le> N"
    by (simp add: N_def)
  have ax: "\<bar>px p - px q\<bar> \<le> 2 ^ 20" and ay: "\<bar>py p - py q\<bar> \<le> 2 ^ 20"
    using pb qb by simp_all
  have "\<bar>px p - px q\<bar> * \<bar>px p - px q\<bar> \<le> 2 ^ 20 * 2 ^ 20"
    using ax by (intro mult_mono) simp_all
  moreover have "\<bar>py p - py q\<bar> * \<bar>py p - py q\<bar> \<le> 2 ^ 20 * 2 ^ 20"
    using ay by (intro mult_mono) simp_all
  ultimately have "\<bar>px p - px q\<bar> * \<bar>px p - px q\<bar> \<le> 2 ^ 20 * 2 ^ 20"
    and "\<bar>py p - py q\<bar> * \<bar>py p - py q\<bar> \<le> 2 ^ 20 * 2 ^ 20"
    by simp_all
  then have N2: "N \<le> 2 ^ 42"
    by (simp add: N_def abs_mult_self_eq)
  have "distance p q = fl (sqrt (real_of_int N))"
    unfolding N_def using pb qb by (rule distance_exact)
  also have "\<dots> < real_of_int n"
    using n N0 N1 N2 by (rule sqrt_below)
  finally show "distance p q < real_of_int n" .
qed

section \<open>The invariant is kept\<close>

lemma cell_rng_update [simp]:
  "cellX (st\<lparr>rng := s\<rparr>) = cellX st" "cellY (st\<lparr>rng := s\<rparr>) = cellY st"
  by (simp_all add: cellX_def cellY_def fun_eq_iff)

lemma sampler_inv_rng_update [simp]:
  "sampler_inv d w h (st\<lparr>rng := s\<rparr>) points = sampler_inv d w h st points"
  by (simp add: sampler_inv_def)

lemma cell_activeList_update [simp]:
  "cellX (st\<lparr>activeList := a\<rparr>) = cellX st" "cellY (st\<lparr>activeList := a\<rparr>) = cellY st"
  by (simp_all add: cellX_def cellY_def fun_eq_iff)

lemma sampler_inv_activeList_update [simp]:
  "sampler_inv d w h (st\<lparr>activeList := a\<rparr>) points = sampler_inv d w h st points"
  by (simp add: sampler_inv_def)

lemma isValidPoint_rng_update [simp]:
  "isValidPoint q d w h (st\<lparr>rng := s\<rparr>) = isValidPoint q d w h st"
  by (simp add: isValidPoint_def)

lemma isValidPoint_activeList_update [simp]:
  "isValidPoint q d w h (st\<lparr>activeList := a\<rparr>) = isValidPoint q d w h st"
  by (simp add: isValidPoint_def)

lemma grid_sound_pos:
  assumes "grid_sound d w h c"
  shows "0 < c"
  using assms unfolding grid_sound_def by blast

lemma grid_sound_col:
  assumes "grid_sound d w h c" and "0 \<le> x" and "x \<le> w"
  shows "\<lfloor>fl (real_of_int x / c)\<rfloor> < \<lceil>fl (real_of_int w / c)\<rceil>"
  using assms unfolding grid_sound_def by blast

lemma grid_sound_row:
  assumes "grid_sound d w h c" and "0 \<le> y" and "y \<le> h"
  shows "\<lfloor>fl (real_of_int y / c)\<rfloor> < \<lceil>fl (real_of_int h / c)\<rceil>"
  using assms unfolding grid_sound_def by blast

lemma grid_sound_close:
  assumes "grid_sound d w h c"
    and "0 \<le> px p" "px p \<le> w" "0 \<le> py p" "py p \<le> h"
    and "0 \<le> px q" "px q \<le> w" "0 \<le> py q" "py q \<le> h"
    and "\<lfloor>fl (real_of_int (px p) / c)\<rfloor> = \<lfloor>fl (real_of_int (px q) / c)\<rfloor>"
    and "\<lfloor>fl (real_of_int (py p) / c)\<rfloor> = \<lfloor>fl (real_of_int (py q) / c)\<rfloor>"
  shows "distance p q < d"
  using assms unfolding grid_sound_def by blast

lemma sampler_inv_dims:
  assumes "sampler_inv d w h st points"
  shows "grid_sound d w h (cellSize st)"
    and "gridWidth st = \<lceil>fl (real_of_int w / cellSize st)\<rceil>"
    and "gridHeight st = \<lceil>fl (real_of_int h / cellSize st)\<rceil>"
    and "distinct points"
  using assms unfolding sampler_inv_def by blast+

lemma sampler_inv_point:
  assumes "sampler_inv d w h st points" and "q \<in> set points"
  shows "0 \<le> px q" and "px q \<le> w" and "0 \<le> py q" and "py q \<le> h"
    and "grid st (cellY st q) (cellX st q) = Some q"
  using assms unfolding sampler_inv_def by blast+

lemma sampler_inv_later:
  assumes "sampler_inv d w h st points" and "p \<in> set (tl points)"
  shows "px p < w" and "py p < h"
  using assms unfolding sampler_inv_def by blast+

lemma sampler_inv_grid:
  assumes "sampler_inv d w h st points" and "grid st gy gx = Some q"
  shows "q \<in> set points" and "cellY st q = gy" and "cellX st q = gx"
  using assms unfolding sampler_inv_def by blast+

lemma isValidPoint_bounds:
  assumes "isValidPoint p d w h st"
  shows "0 \<le> px p" and "px p < w" and "0 \<le> py p" and "py p < h"
  using assms by (auto simp: isValidPoint_def split: if_splits)

lemma isValidPoint_scan:
  assumes v: "isValidPoint p d w h st"
    and gy: "max 0 (cellY st p - 2) \<le> gy" "gy \<le> min (gridHeight st - 1) (cellY st p + 2)"
    and gx: "max 0 (cellX st p - 2) \<le> gx" "gx \<le> min (gridWidth st - 1) (cellX st p + 2)"
    and g: "grid st gy gx = Some q"
  shows "d \<le> distance p q"
proof -
  from v have "list_all (\<lambda>gy. list_all (\<lambda>gx.
              (case grid st gy gx of None \<Rightarrow> True | Some e \<Rightarrow> \<not> distance p e < d))
              [max 0 (cellX st p - 2)..min (gridWidth st - 1) (cellX st p + 2)])
              [max 0 (cellY st p - 2)..min (gridHeight st - 1) (cellY st p + 2)]"
    by (simp add: isValidPoint_def Let_def cellX_def cellY_def split: if_splits)
  then have "\<forall>gy \<in> {max 0 (cellY st p - 2)..min (gridHeight st - 1) (cellY st p + 2)}.
             \<forall>gx \<in> {max 0 (cellX st p - 2)..min (gridWidth st - 1) (cellX st p + 2)}.
               (case grid st gy gx of None \<Rightarrow> True | Some e \<Rightarrow> \<not> distance p e < d)"
    by (simp add: list_all_iff)
  with gy gx have "case grid st gy gx of None \<Rightarrow> True | Some e \<Rightarrow> \<not> distance p e < d"
    by simp
  with g show ?thesis
    by simp
qed

lemma cell_nonneg:
  assumes "0 < cellSize st"
  shows "0 \<le> px p \<Longrightarrow> 0 \<le> cellX st p" and "0 \<le> py p \<Longrightarrow> 0 \<le> cellY st p"
proof -
  show "0 \<le> cellX st p" if "0 \<le> px p"
  proof -
    have "0 \<le> fl (real_of_int (px p) / cellSize st)"
      using assms that by (intro fl_nonneg) simp
    then show ?thesis
      by (simp add: cellX_def)
  qed
  show "0 \<le> cellY st p" if "0 \<le> py p"
  proof -
    have "0 \<le> fl (real_of_int (py p) / cellSize st)"
      using assms that by (intro fl_nonneg) simp
    then show ?thesis
      by (simp add: cellY_def)
  qed
qed

text \<open>
  A candidate that passes \<open>isValidPoint\<close> lies in a cell of the grid, which the scan covers;
  a point in that cell would be less than \<open>d\<close> away, so the cell is empty: the candidate is a
  new point, and storing it overwrites nothing.
\<close>

lemma addPoint_inv:
  assumes inv: "sampler_inv d w h st points" and v: "isValidPoint p d w h st"
  shows "\<exists>st'. addPoint p points st = Inr (st', points @ [p])
           \<and> sampler_inv d w h st' (points @ [p])
           \<and> activeList st' = activeList st @ [p] \<and> rng st' = rng st"
proof -
  note dims = sampler_inv_dims [OF inv]
  from dims(1) have cpos: "0 < cellSize st"
    by (rule grid_sound_pos)
  note pb = isValidPoint_bounds [OF v]
  have p0: "0 \<le> cellX st p" "0 \<le> cellY st p"
    using cpos pb by (simp_all add: cell_nonneg)
  have pc: "cellX st p < gridWidth st" "cellY st p < gridHeight st"
    unfolding dims(2,3) cellX_def cellY_def
    using grid_sound_col [OF dims(1), of "px p"] grid_sound_row [OF dims(1), of "py p"] pb
    by simp_all
  define st' where "st' = st\<lparr>activeList := activeList st @ [p],
     grid := (grid st)(cellY st p := (grid st (cellY st p))(cellX st p := Some p))\<rparr>"
  have add: "addPoint p points st = Inr (st', points @ [p])"
    using p0 pc by (simp add: addPoint_def Let_def st'_def cellX_def cellY_def)
  have empty: "grid st (cellY st p) (cellX st p) = None"
  proof (cases "grid st (cellY st p) (cellX st p)")
    case None
    then show ?thesis .
  next
    case (Some q)
    note g = sampler_inv_grid [OF inv Some]
    note qb = sampler_inv_point(1-4) [OF inv g(1)]
    have "distance p q < d"
    proof (rule grid_sound_close [OF dims(1)])
      show "0 \<le> px p" "px p \<le> w" "0 \<le> py p" "py p \<le> h"
        using pb by simp_all
      show "0 \<le> px q" "px q \<le> w" "0 \<le> py q" "py q \<le> h"
        by (rule qb)+
      show "\<lfloor>fl (real_of_int (px p) / cellSize st)\<rfloor> = \<lfloor>fl (real_of_int (px q) / cellSize st)\<rfloor>"
        using g(3) by (simp add: cellX_def)
      show "\<lfloor>fl (real_of_int (py p) / cellSize st)\<rfloor> = \<lfloor>fl (real_of_int (py q) / cellSize st)\<rfloor>"
        using g(2) by (simp add: cellY_def)
    qed
    moreover have "d \<le> distance p q"
    proof (rule isValidPoint_scan [OF v _ _ _ _ Some])
      show "max 0 (cellY st p - 2) \<le> cellY st p" "cellY st p \<le> min (gridHeight st - 1) (cellY st p + 2)"
        "max 0 (cellX st p - 2) \<le> cellX st p" "cellX st p \<le> min (gridWidth st - 1) (cellX st p + 2)"
        using p0 pc by simp_all
    qed
    ultimately show ?thesis
      by simp
  qed
  have fresh: "p \<notin> set points"
  proof
    assume "p \<in> set points"
    with inv have "grid st (cellY st p) (cellX st p) = Some p"
      by (rule sampler_inv_point)
    with empty show False
      by simp
  qed
  have cells: "cellX st' = cellX st" "cellY st' = cellY st"
    by (simp_all add: st'_def cellX_def cellY_def fun_eq_iff)
  have other_cell: "\<not> (cellX st q = cellX st p \<and> cellY st q = cellY st p)" if "q \<in> set points" for q
  proof
    assume "cellX st q = cellX st p \<and> cellY st q = cellY st p"
    with sampler_inv_point(5) [OF inv that] empty show False
      by simp
  qed
  have grid_old: "grid st' (cellY st q) (cellX st q) = Some q" if "q \<in> set points" for q
    using other_cell [OF that] sampler_inv_point(5) [OF inv that] by (auto simp: st'_def)
  have grid_new: "grid st' (cellY st p) (cellX st p) = Some p"
    by (simp add: st'_def)
  have "sampler_inv d w h st' (points @ [p])"
    unfolding sampler_inv_def
  proof (intro conjI ballI allI impI)
    show "grid_sound d w h (cellSize st')"
      using dims(1) by (simp add: st'_def)
    show "gridWidth st' = \<lceil>fl (real_of_int w / cellSize st')\<rceil>"
      using dims(2) by (simp add: st'_def)
    show "gridHeight st' = \<lceil>fl (real_of_int h / cellSize st')\<rceil>"
      using dims(3) by (simp add: st'_def)
    show "distinct (points @ [p])"
      using dims(4) fresh by simp
  next
    fix q assume q: "q \<in> set (points @ [p])"
    then consider "q \<in> set points" | "q = p"
      by auto
    then have "0 \<le> px q \<and> px q \<le> w \<and> 0 \<le> py q \<and> py q \<le> h
        \<and> grid st' (cellY st q) (cellX st q) = Some q"
    proof cases
      case 1
      then show ?thesis
        using sampler_inv_point [OF inv 1] grid_old [OF 1] by simp
    next
      case 2
      then show ?thesis
        using pb grid_new by simp
    qed
    then show "0 \<le> px q" "px q \<le> w" "0 \<le> py q" "py q \<le> h"
      "grid st' (cellY st' q) (cellX st' q) = Some q"
      by (simp_all add: cells)
  next
    fix q assume "q \<in> set (tl (points @ [p]))"
    then have "q \<in> set (tl points) \<or> q = p"
      by (cases points) auto
    then show "px q < w" "py q < h"
      using sampler_inv_later [OF inv] pb by auto
  next
    fix gy gx q assume g: "grid st' gy gx = Some q"
    show "q \<in> set (points @ [p])" "cellY st' q = gy" "cellX st' q = gx"
    proof -
      have "q \<in> set (points @ [p]) \<and> cellY st q = gy \<and> cellX st q = gx"
      proof (cases "gy = cellY st p \<and> gx = cellX st p")
        case True
        with g have "q = p"
          by (simp add: st'_def)
        with True show ?thesis
          by simp
      next
        case False
        with g have "grid st gy gx = Some q"
          by (auto simp: st'_def split: if_splits)
        from sampler_inv_grid [OF inv this] show ?thesis
          by simp
      qed
      then show "q \<in> set (points @ [p])" "cellY st' q = gy" "cellX st' q = gx"
        by (simp_all add: cells)
    qed
  qed
  moreover have "activeList st' = activeList st @ [p]" "rng st' = rng st"
    by (simp_all add: st'_def)
  ultimately show ?thesis
    using add by blast
qed

lemma attempts_inv:
  assumes inv: "sampler_inv d w h st points"
  shows "(\<exists>st'. attempts n pt d w h cb st points = Inr (False, st', points)
            \<and> sampler_inv d w h st' points \<and> activeList st' = activeList st)
         \<or> (\<exists>st' p. attempts n pt d w h cb st points = Inr (True, st', points @ [p])
            \<and> sampler_inv d w h st' (points @ [p]) \<and> activeList st' = activeList st @ [p])"
  using inv
proof (induction n arbitrary: st)
  case 0
  then show ?case
    by simp
next
  case (Suc n)
  obtain newPoint s1 where g: "generateRandomPointAround pt d w h cb (rng st) = (newPoint, s1)"
    by (cases "generateRandomPointAround pt d w h cb (rng st)")
  let ?st1 = "st\<lparr>rng := s1\<rparr>"
  have inv1: "sampler_inv d w h ?st1 points"
    using Suc.prems by simp
  show ?case
  proof (cases "isValidPoint newPoint d w h ?st1")
    case True
    from addPoint_inv [OF inv1 True] obtain st' where
      "addPoint newPoint points ?st1 = Inr (st', points @ [newPoint])"
      "sampler_inv d w h st' (points @ [newPoint])"
      "activeList st' = activeList ?st1 @ [newPoint]"
      by blast
    with True g show ?thesis
      by simp
  next
    case False
    then have "attempts (Suc n) pt d w h cb st points = attempts n pt d w h cb ?st1 points"
      using g by simp
    with Suc.IH [OF inv1] show ?thesis
      by simp
  qed
qed

lemma Point_eq_iff: "p = q \<longleftrightarrow> px p = px q \<and> py p = py q" for p q :: Point
  by (cases p, cases q) simp

lemma sampler_inv_length:
  assumes w: "0 \<le> w" and h: "0 \<le> h" and inv: "sampler_inv d w h st points"
  shows "length points \<le> nat ((w + 1) * (h + 1))"
proof -
  let ?f = "\<lambda>p::Point. (px p, py p)"
  have inj: "inj_on ?f (set points)"
    by (rule inj_onI) (simp add: Point_eq_iff)
  have sub: "?f ` set points \<subseteq> {0..w} \<times> {0..h}"
    using sampler_inv_point(1-4) [OF inv] by auto
  have "length points = card (set points)"
    using sampler_inv_dims(4) [OF inv] by (simp add: distinct_card)
  also have "\<dots> = card (?f ` set points)"
    using inj by (simp add: card_image)
  also have "\<dots> \<le> card ({0..w} \<times> {0..h})"
    using sub by (intro card_mono) simp_all
  also have "\<dots> = nat (w + 1) * nat (h + 1)"
    by (simp add: card_cartesian_product)
  also have "\<dots> = nat ((w + 1) * (h + 1))"
    using w h by (simp add: nat_mult_distrib)
  finally show ?thesis .
qed

lemma nextInt_index:
  assumes "0 < n"
  shows "0 \<le> fst (nextInt 0 (int n) s) \<and> fst (nextInt 0 (int n) s) < int n"
proof -
  let ?u = "fst (next s)"
  have u: "0 \<le> ?u" "?u < 1"
    using next_range [of s] by simp_all
  have "0 \<le> ?u * real n"
    using u(1) by simp
  moreover have "?u * real n < real n"
    using u(2) assms by simp
  ultimately have "0 \<le> \<lfloor>?u * real n\<rfloor> \<and> \<lfloor>?u * real n\<rfloor> < int n"
    by (simp add: floor_less_iff)
  then show ?thesis
    by (simp add: nextInt_def split_beta)
qed

lemma length_splice1: "i < length xs \<Longrightarrow> length (splice1 i xs) = length xs - 1"
  by (simp add: splice1_def)

section \<open>The loop ends\<close>

lemma sample_loop_total:
  assumes w: "0 \<le> w" and h: "0 \<le> h" and inv: "sampler_inv d w h st points"
  shows "\<exists>ext s' st'. sample_loop d w h m cb st points = Some (Inr (points @ ext, s'))
           \<and> sampler_inv d w h st' (points @ ext)"
  using inv
proof (induction "2 * (nat ((w + 1) * (h + 1)) - length points) + length (activeList st)"
        arbitrary: st points rule: less_induct)
  case less
  note inv = less.prems
  let ?N = "nat ((w + 1) * (h + 1))"
  show ?case
  proof (cases "activeList st = []")
    case True
    then have "sample_loop d w h m cb st points = Some (Inr (points @ [], rng st))"
      by (subst sample_loop.simps) simp
    with inv show ?thesis
      by (metis append_Nil2)
  next
    case False
    let ?len = "length (activeList st)"
    obtain i s1 where ni: "nextInt 0 (int ?len) (rng st) = (i, s1)"
      by (cases "nextInt 0 (int ?len) (rng st)")
    from False have "0 < ?len"
      by simp
    from nextInt_index [OF this, of "rng st"] ni have i: "0 \<le> i" "i < int ?len"
      by simp_all
    let ?st1 = "st\<lparr>rng := s1\<rparr>"
    let ?pt = "activeList st ! nat i"
    have inv1: "sampler_inv d w h ?st1 points"
      using inv by simp
    have unfold: "sample_loop d w h m cb st points =
      (case attempts (nat m) ?pt d w h cb ?st1 points of
         Inl e \<Rightarrow> Some (Inl e)
       | Inr (found, st2, points2) \<Rightarrow>
           if found then sample_loop d w h m cb st2 points2
           else sample_loop d w h m cb
                  (st2\<lparr>activeList := splice1 (nat i) (activeList st2)\<rparr>) points2)"
      using False ni i by (subst sample_loop.simps) simp
    from attempts_inv [OF inv1, of "nat m" ?pt cb]
    consider (reject) st' where "attempts (nat m) ?pt d w h cb ?st1 points = Inr (False, st', points)"
        "sampler_inv d w h st' points" "activeList st' = activeList ?st1"
      | (accept) st' p where "attempts (nat m) ?pt d w h cb ?st1 points = Inr (True, st', points @ [p])"
        "sampler_inv d w h st' (points @ [p])" "activeList st' = activeList ?st1 @ [p]"
      by blast
    then show ?thesis
    proof cases
      case reject
      let ?st2 = "st'\<lparr>activeList := splice1 (nat i) (activeList st')\<rparr>"
      have eq: "sample_loop d w h m cb st points = sample_loop d w h m cb ?st2 points"
        using unfold reject(1) by simp
      have "length (activeList ?st2) = ?len - 1"
        using reject(3) i by (simp add: length_splice1)
      with \<open>0 < ?len\<close> have less: "2 * (?N - length points) + length (activeList ?st2)
          < 2 * (?N - length points) + ?len"
        by simp
      have "sampler_inv d w h ?st2 points"
        using reject(2) by simp
      from less.hyps [OF less this] eq show ?thesis
        by simp
    next
      case accept
      have eq: "sample_loop d w h m cb st points = sample_loop d w h m cb st' (points @ [p])"
        using unfold accept(1) by simp
      have "length (points @ [p]) \<le> ?N"
        using w h accept(2) by (rule sampler_inv_length)
      then have "2 * (?N - length (points @ [p])) + length (activeList st')
          < 2 * (?N - length points) + ?len"
        using accept(3) by simp
      from less.hyps [OF this accept(2)] obtain ext s' st'' where
        "sample_loop d w h m cb st' (points @ [p]) = Some (Inr ((points @ [p]) @ ext, s'))"
        "sampler_inv d w h st'' ((points @ [p]) @ ext)"
        by blast
      with eq have "sample_loop d w h m cb st points = Some (Inr (points @ (p # ext), s'))"
        "sampler_inv d w h st'' (points @ (p # ext))"
        by simp_all
      then show ?thesis
        by blast
    qed
  qed
qed

section \<open>The first point\<close>

lemma js_round_range:
  assumes "0 \<le> v" and "v < real_of_int n + 1 / 2"
  shows "0 \<le> js_round v" and "js_round v \<le> n"
proof -
  from assms(1) have "0 \<le> v + 1 / 2"
    by simp
  then show "0 \<le> js_round v"
    unfolding js_round_def by (simp only: zero_le_floor)
  from assms(2) have "v + 1 / 2 < real_of_int (n + 1)"
    by simp
  then have "\<lfloor>v + 1 / 2\<rfloor> < n + 1"
    by (simp only: floor_less_iff)
  then show "js_round v \<le> n"
    by (simp add: js_round_def)
qed

lemma abs_scaled_le:
  fixes t R :: real
  assumes "0 \<le> R" and "\<bar>t\<bar> \<le> 1"
  shows "\<bar>t * R\<bar> \<le> R"
proof -
  have "\<bar>t * R\<bar> = \<bar>t\<bar> * R"
    using assms(1) by (simp add: abs_mult)
  also have "\<dots> \<le> 1 * R"
    using assms by (intro mult_right_mono) simp_all
  finally show ?thesis
    by simp
qed

lemma pointInCircle_bounds:
  assumes "0 \<le> radius"
  shows "\<bar>fst (fst (pointInCircle radius s))\<bar> \<le> radius"
    and "\<bar>snd (fst (pointInCircle radius s))\<bar> \<le> radius"
proof -
  obtain angle s1 where a: "nextFloat 0 (pi * 2) s = (angle, s1)"
    by (cases "nextFloat 0 (pi * 2) s")
  let ?u = "fst (next s1)"
  have u: "0 \<le> ?u" "?u < 1"
    using next_range [of s1] by simp_all
  then have "sqrt ?u \<le> 1"
    by simp
  moreover have "0 \<le> sqrt ?u"
    using u by simp
  ultimately have r: "0 \<le> sqrt ?u * radius" "sqrt ?u * radius \<le> radius"
    using assms by (simp_all add: mult_left_le_one_le)
  have p: "fst (pointInCircle radius s) = (cos angle * (sqrt ?u * radius), sin angle * (sqrt ?u * radius))"
    using a by (simp add: pointInCircle_def split_beta Let_def)
  have "\<bar>cos angle * (sqrt ?u * radius)\<bar> \<le> sqrt ?u * radius"
    using r(1) by (rule abs_scaled_le) simp
  with r(2) show "\<bar>fst (fst (pointInCircle radius s))\<bar> \<le> radius"
    using p by simp
  have "\<bar>sin angle * (sqrt ?u * radius)\<bar> \<le> sqrt ?u * radius"
    using r(1) by (rule abs_scaled_le) simp
  with r(2) show "\<bar>snd (fst (pointInCircle radius s))\<bar> \<le> radius"
    using p by simp
qed

lemma nextFloat_range:
  assumes "0 \<le> n"
  shows "0 \<le> fst (nextFloat 0 (real_of_int n) s)"
    and "fst (nextFloat 0 (real_of_int n) s) \<le> real_of_int n"
proof -
  let ?u = "fst (next s)"
  have u: "0 \<le> ?u" "?u \<le> 1"
    using next_range [of s] by simp_all
  have v: "fst (nextFloat 0 (real_of_int n) s) = ?u * real_of_int n"
    by (simp add: nextFloat_def split_beta)
  show "0 \<le> fst (nextFloat 0 (real_of_int n) s)"
    unfolding v using u(1) assms by simp
  have "?u * real_of_int n \<le> 1 * real_of_int n"
    using u(2) assms by (intro mult_right_mono) simp_all
  then show "fst (nextFloat 0 (real_of_int n) s) \<le> real_of_int n"
    unfolding v by simp
qed

lemma generateRandomPoint_bounds:
  assumes w: "0 \<le> w" and h: "0 \<le> h"
  shows "0 \<le> px (fst (generateRandomPoint w h cb s))"
    and "px (fst (generateRandomPoint w h cb s)) \<le> w"
    and "0 \<le> py (fst (generateRandomPoint w h cb s))"
    and "py (fst (generateRandomPoint w h cb s)) \<le> h"
proof -
  obtain biased s1 where b: "(if cb > 0 then (let (u, s') = next s in (u < cb, s')) else (False, s)) = (biased, s1)"
    by (cases "(if cb > 0 then (let (u, s') = next s in (u < cb, s')) else (False, s))")
  let ?P = "\<lambda>p. (0 \<le> px p \<and> px p \<le> w) \<and> (0 \<le> py p \<and> py p \<le> h)"
  have "?P (fst (generateRandomPoint w h cb s))"
  proof (cases biased)
    case True
    let ?radius = "real_of_int (min w h) * 0.3"
    let ?pt = "fst (pointInCircle ?radius s1)"
    have rad: "0 \<le> ?radius" "?radius \<le> real_of_int w * 0.3" "?radius \<le> real_of_int h * 0.3"
      using w h by simp_all
    have px: "\<bar>fst ?pt\<bar> \<le> ?radius" and py: "\<bar>snd ?pt\<bar> \<le> ?radius"
      using rad(1) by (rule pointInCircle_bounds)+
    have eq: "fst (generateRandomPoint w h cb s) =
      \<lparr>px = js_round (real_of_int w / 2 + fst ?pt), py = js_round (real_of_int h / 2 + snd ?pt)\<rparr>"
      using b True unfolding generateRandomPoint_def by (simp add: split_beta Let_def)
    have "0 \<le> real_of_int w / 2 + fst ?pt" "real_of_int w / 2 + fst ?pt < real_of_int w + 1 / 2"
      using px rad(2) w by linarith+
    then have x: "0 \<le> js_round (real_of_int w / 2 + fst ?pt) \<and> js_round (real_of_int w / 2 + fst ?pt) \<le> w"
      by (simp add: js_round_range)
    have "0 \<le> real_of_int h / 2 + snd ?pt" "real_of_int h / 2 + snd ?pt < real_of_int h + 1 / 2"
      using py rad(3) h by linarith+
    then have y: "0 \<le> js_round (real_of_int h / 2 + snd ?pt) \<and> js_round (real_of_int h / 2 + snd ?pt) \<le> h"
      by (simp add: js_round_range)
    from x y show ?thesis
      unfolding eq by simp
  next
    case False
    let ?fx = "fst (nextFloat 0 (real_of_int w) s1)"
    let ?s2 = "snd (nextFloat 0 (real_of_int w) s1)"
    let ?fy = "fst (nextFloat 0 (real_of_int h) ?s2)"
    have eq: "fst (generateRandomPoint w h cb s) = \<lparr>px = js_round ?fx, py = js_round ?fy\<rparr>"
      using b False unfolding generateRandomPoint_def by (simp add: split_beta Let_def)
    have "0 \<le> ?fx" "?fx < real_of_int w + 1 / 2"
      using nextFloat_range [OF w, of s1] by simp_all
    then have x: "0 \<le> js_round ?fx \<and> js_round ?fx \<le> w"
      by (simp add: js_round_range)
    have "0 \<le> ?fy" "?fy < real_of_int h + 1 / 2"
      using nextFloat_range [OF h, of ?s2] by simp_all
    then have y: "0 \<le> js_round ?fy \<and> js_round ?fy \<le> h"
      by (simp add: js_round_range)
    from x y show ?thesis
      unfolding eq by simp
  qed
  then show "0 \<le> px (fst (generateRandomPoint w h cb s))"
    and "px (fst (generateRandomPoint w h cb s)) \<le> w"
    and "0 \<le> py (fst (generateRandomPoint w h cb s))"
    and "py (fst (generateRandomPoint w h cb s)) \<le> h"
    by simp_all
qed

lemma real_of_rat_of_int [simp]: "real_of_rat (of_int n) = real_of_int n"
  by (metis of_rat_of_int_eq)

section \<open>From the configuration to the loop\<close>

text \<open>
  \<open>sample\<close> up to the loop: the errors of the allocation, the error of storing the first point
  in a row that does not exist, and otherwise the loop, entered with the first point stored.
\<close>

lemma sample_unfold:
  "sample config s =
     (if minDistance config = 0 then Some (Inl RangeError)
      else if \<not> valid_array_length (config_gridHeight config) then Some (Inl RangeError)
      else if 0 < config_gridHeight config \<and> \<not> valid_array_length (config_gridWidth config)
        then Some (Inl RangeError)
      else if \<not> (0 \<le> firstRow config s \<and> firstRow config s < config_gridHeight config)
        then Some (Inl TypeError)
      else sample_loop (real_of_rat (minDistance config)) (width config) (height config)
             (config_maxAttempts config) (config_centerBias config)
             (started_sampler config s) [firstPoint config s])"
  unfolding sample_def started_sampler_def initial_sampler_def firstPoint_def firstRow_def
    firstCol_def config_gridWidth_def config_gridHeight_def config_cellSize_def
    config_centerBias_def config_maxAttempts_def addPoint_def
  by (simp add: Let_def split_beta)

lemma started_sampler_fields [simp]:
  "cellSize (started_sampler config s) = config_cellSize config"
  "gridWidth (started_sampler config s) = config_gridWidth config"
  "gridHeight (started_sampler config s) = config_gridHeight config"
  "activeList (started_sampler config s) = [firstPoint config s]"
  "rng (started_sampler config s)
     = snd (generateRandomPoint (width config) (height config) (config_centerBias config) s)"
  "grid (started_sampler config s) gy gx
     = (if gy = firstRow config s \<and> gx = firstCol config s then Some (firstPoint config s) else None)"
  by (simp_all add: started_sampler_def initial_sampler_def Let_def)

lemma started_cells [simp]:
  "cellX (started_sampler config s) (firstPoint config s) = firstCol config s"
  "cellY (started_sampler config s) (firstPoint config s) = firstRow config s"
  by (simp_all add: cellX_def cellY_def firstCol_def firstRow_def)

lemma firstPoint_bounds:
  assumes "0 \<le> width config" and "0 \<le> height config"
  shows "0 \<le> px (firstPoint config s)" and "px (firstPoint config s) \<le> width config"
    and "0 \<le> py (firstPoint config s)" and "py (firstPoint config s) \<le> height config"
  unfolding firstPoint_def using assms by (rule generateRandomPoint_bounds)+

lemma started_inv:
  assumes w: "0 \<le> width config" and h: "0 \<le> height config"
    and sound: "grid_sound d (width config) (height config) (config_cellSize config)"
  shows "sampler_inv d (width config) (height config) (started_sampler config s) [firstPoint config s]"
  unfolding sampler_inv_def
proof (intro conjI ballI allI impI)
  let ?st = "started_sampler config s"
  let ?fp = "firstPoint config s"
  note fb = firstPoint_bounds [OF w h, of s]
  show "grid_sound d (width config) (height config) (cellSize ?st)"
    using sound by simp
  show "gridWidth ?st = \<lceil>fl (real_of_int (width config) / cellSize ?st)\<rceil>"
    by (simp add: config_gridWidth_def)
  show "gridHeight ?st = \<lceil>fl (real_of_int (height config) / cellSize ?st)\<rceil>"
    by (simp add: config_gridHeight_def)
  show "distinct [?fp]"
    by simp
  show "0 \<le> px q" "px q \<le> width config" "0 \<le> py q" "py q \<le> height config"
    "grid ?st (cellY ?st q) (cellX ?st q) = Some q" if "q \<in> set [?fp]" for q
    using that fb by simp_all
  show "px q < width config" "py q < height config" if "q \<in> set (tl [?fp])" for q
    using that by simp_all
  show "q \<in> set [?fp]" "cellY ?st q = gy" "cellX ?st q = gx" if "grid ?st gy gx = Some q" for gy gx q
  proof -
    from that have "q = ?fp \<and> gy = firstRow config s \<and> gx = firstCol config s"
      by (simp split: if_splits)
    then show "q \<in> set [?fp]" "cellY ?st q = gy" "cellX ?st q = gx"
      by simp_all
  qed
qed

lemma first_row_sound:
  assumes w: "0 \<le> width config" and h: "0 \<le> height config"
    and sound: "grid_sound d (width config) (height config) (config_cellSize config)"
  shows "0 \<le> firstRow config s" and "firstRow config s < config_gridHeight config"
    and "0 < config_gridWidth config"
proof -
  note fb = firstPoint_bounds [OF w h, of s]
  from sound have cpos: "0 < config_cellSize config"
    by (rule grid_sound_pos)
  have "0 \<le> fl (real_of_int (py (firstPoint config s)) / config_cellSize config)"
    using cpos fb(3) by (intro fl_nonneg) simp
  then show "0 \<le> firstRow config s"
    by (simp add: firstRow_def)
  show "firstRow config s < config_gridHeight config"
    unfolding firstRow_def config_gridHeight_def using sound fb(3,4) by (rule grid_sound_row)
  have "\<lfloor>fl (real_of_int 0 / config_cellSize config)\<rfloor> < config_gridWidth config"
    unfolding config_gridWidth_def using sound _ w by (rule grid_sound_col) simp
  then show "0 < config_gridWidth config"
    by simp
qed

lemma sample_returns:
  assumes w: "0 \<le> width config" and h: "0 \<le> height config" and d: "minDistance config \<noteq> 0"
    and sound: "grid_sound (real_of_rat (minDistance config)) (width config) (height config)
                  (config_cellSize config)"
    and fits: "config_gridWidth config \<le> 4294967295" "config_gridHeight config \<le> 4294967295"
  shows "\<exists>ext s' st'. sample config s = Some (Inr (firstPoint config s # ext, s'))
           \<and> sampler_inv (real_of_rat (minDistance config)) (width config) (height config)
                st' (firstPoint config s # ext)"
proof -
  let ?d = "real_of_rat (minDistance config)"
  have row: "0 \<le> firstRow config s" "firstRow config s < config_gridHeight config"
    "0 < config_gridWidth config"
    by (rule first_row_sound [OF w h sound])+
  have "valid_array_length (config_gridHeight config)" "valid_array_length (config_gridWidth config)"
    using row fits by (simp_all add: valid_array_length_def)
  with d row have unfold: "sample config s =
      sample_loop ?d (width config) (height config) (config_maxAttempts config)
        (config_centerBias config) (started_sampler config s) [firstPoint config s]"
    by (simp add: sample_unfold)
  have inv: "sampler_inv ?d (width config) (height config) (started_sampler config s)
      [firstPoint config s]"
    using w h sound by (rule started_inv)
  from sample_loop_total [OF w h inv]
  obtain ext s' st' where
    "sample_loop ?d (width config) (height config) (config_maxAttempts config)
       (config_centerBias config) (started_sampler config s) [firstPoint config s]
     = Some (Inr ([firstPoint config s] @ ext, s'))"
    "sampler_inv ?d (width config) (height config) st' ([firstPoint config s] @ ext)"
    by blast
  with unfold show ?thesis
    by auto
qed

text \<open>A whole minimum distance on a canvas of at most \<open>2 ^ 20\<close> pixels a side.\<close>

lemma fl_half: "fl (1 / 2) = 1 / 2"
proof -
  have "fl (of_int 1 * 2 powi (- 1)) = of_int 1 * 2 powi (- 1)"
    by (rule fl_scaled_int) simp
  then show ?thesis
    by (simp add: power_int_minus)
qed

lemma half_le_cell:
  fixes n :: int
  assumes "0 < n"
  shows "1 / 2 \<le> fl (real_of_int n / Math_sqrt 2)"
proof -
  have "(1::real) / 2 \<le> real_of_int n / 2"
    using assms by simp
  then have "fl (1 / 2) \<le> fl (real_of_int n / 2)"
    by (rule fl_mono)
  also have "\<dots> \<le> fl (real_of_int n / Math_sqrt 2)"
    using assms by (intro cell_bounds) simp
  finally show ?thesis
    unfolding fl_half .
qed

lemma grid_dim_small:
  fixes n x :: int
  assumes n: "0 < n" and x: "x \<le> 2 ^ 20"
  shows "\<lceil>fl (real_of_int x / fl (real_of_int n / Math_sqrt 2))\<rceil> \<le> 2 ^ 21"
proof -
  let ?c = "fl (real_of_int n / Math_sqrt 2)"
  have c: "1 / 2 \<le> ?c"
    using n by (rule half_le_cell)
  have "real_of_int x / ?c \<le> real_of_int (2 ^ 21)"
  proof (cases "0 \<le> x")
    case True
    have "real_of_int x / ?c \<le> real_of_int x / (1 / 2)"
      using c True by (intro divide_left_mono) simp_all
    also have "\<dots> = real_of_int (2 * x)"
      by simp
    also have "\<dots> \<le> real_of_int (2 ^ 21)"
      using x by (simp only: of_int_le_iff) simp
    finally show ?thesis .
  next
    case False
    then have "real_of_int x / ?c \<le> 0"
      using c by (simp add: divide_le_0_iff)
    then show ?thesis
      by simp
  qed
  then have "fl (real_of_int x / ?c) \<le> fl (real_of_int (2 ^ 21))"
    by (rule fl_mono)
  also have "\<dots> = real_of_int (2 ^ 21)"
    by (rule fl_of_int) simp
  finally show ?thesis
    by (simp only: ceiling_le_iff)
qed

lemma sample_returns_int:
  fixes n :: int
  assumes d: "minDistance config = of_int n" "0 < n"
    and w: "0 < width config" "width config \<le> 2 ^ 20"
    and h: "0 < height config" "height config \<le> 2 ^ 20"
  shows "\<exists>ext s' st'. sample config s = Some (Inr (firstPoint config s # ext, s'))
           \<and> sampler_inv (real_of_int n) (width config) (height config)
                st' (firstPoint config s # ext)"
proof -
  have c: "config_cellSize config = fl (real_of_int n / Math_sqrt 2)"
    by (simp add: config_cellSize_def d(1))
  have sound: "grid_sound (real_of_rat (minDistance config)) (width config) (height config)
      (config_cellSize config)"
    unfolding c using d(2) w h by (simp add: d(1) grid_sound_int)
  have "config_gridWidth config \<le> 2 ^ 21"
    unfolding config_gridWidth_def c using d(2) w(2) by (rule grid_dim_small)
  moreover have "config_gridHeight config \<le> 2 ^ 21"
    unfolding config_gridHeight_def c using d(2) h(2) by (rule grid_dim_small)
  ultimately have fits: "config_gridWidth config \<le> 4294967295" "config_gridHeight config \<le> 4294967295"
    by simp_all
  from sample_returns [OF _ _ _ sound fits] d w h show ?thesis
    by simp
qed

section \<open>Consequences for the returned list\<close>


text \<open>Where the returned points lie: all in the closed rectangle, all but the first in the
  half-open one.\<close>

lemma sample_bounds:
  fixes n :: int
  assumes d: "minDistance config = of_int n" "0 < n"
    and w: "0 < width config" "width config \<le> 2 ^ 20"
    and h: "0 < height config" "height config \<le> 2 ^ 20"
    and res: "sample config s = Some (Inr (points, s'))"
  shows "hd points = firstPoint config s"
    and "\<forall>p \<in> set points. 0 \<le> px p \<and> px p \<le> width config \<and> 0 \<le> py p \<and> py p \<le> height config"
    and "\<forall>p \<in> set (tl points). px p < width config \<and> py p < height config"
proof -
  from sample_returns_int [OF d w h, of s] res obtain ext st' where
    pts: "points = firstPoint config s # ext"
    and inv: "sampler_inv (real_of_int n) (width config) (height config) st' points"
    by auto
  show "hd points = firstPoint config s"
    using pts by simp
  show "\<forall>p \<in> set points. 0 \<le> px p \<and> px p \<le> width config \<and> 0 \<le> py p \<and> py p \<le> height config"
    using sampler_inv_point(1-4) [OF inv] by blast
  show "\<forall>p \<in> set (tl points). px p < width config \<and> py p < height config"
    using sampler_inv_later [OF inv] by blast
qed

section \<open>A loop in which every candidate is rejected\<close>

lemma attempts_rejected:
  assumes "\<And>q. \<not> isValidPoint q d w h st"
  shows "\<exists>s2. attempts n p d w h cb st points = Inr (False, st\<lparr>rng := s2\<rparr>, points)"
  using assms
proof (induction n arbitrary: st)
  case 0
  have "st = st\<lparr>rng := rng st\<rparr>"
    by simp
  then have "attempts 0 p d w h cb st points = Inr (False, st\<lparr>rng := rng st\<rparr>, points)"
    by simp
  then show ?case
    by blast
next
  case (Suc n)
  obtain newPoint s1 where g: "generateRandomPointAround p d w h cb (rng st) = (newPoint, s1)"
    by (cases "generateRandomPointAround p d w h cb (rng st)")
  have "\<not> isValidPoint newPoint d w h (st\<lparr>rng := s1\<rparr>)"
    using Suc.prems by simp
  then have step: "attempts (Suc n) p d w h cb st points = attempts n p d w h cb (st\<lparr>rng := s1\<rparr>) points"
    using g by simp
  have "\<And>q. \<not> isValidPoint q d w h (st\<lparr>rng := s1\<rparr>)"
    using Suc.prems by simp
  from Suc.IH [OF this] obtain s2 where
    "attempts n p d w h cb (st\<lparr>rng := s1\<rparr>) points = Inr (False, st\<lparr>rng := s1\<rparr>\<lparr>rng := s2\<rparr>, points)"
    by blast
  then have "attempts (Suc n) p d w h cb st points = Inr (False, st\<lparr>rng := s2\<rparr>, points)"
    unfolding step by simp
  then show ?case
    by blast
qed

text \<open>With no attempt allowed, or with every candidate rejected, the loop takes the points
  off the active list one by one and returns the points it was entered with.\<close>

lemma sample_loop_rejecting:
  assumes "m \<le> 0 \<or> (\<forall>q. \<not> isValidPoint q d w h st)"
  shows "\<exists>s'. sample_loop d w h m cb st points = Some (Inr (points, s'))"
  using assms
proof (induction "length (activeList st)" arbitrary: st rule: less_induct)
  case less
  show ?case
  proof (cases "activeList st = []")
    case True
    then have "sample_loop d w h m cb st points = Some (Inr (points, rng st))"
      by (subst sample_loop.simps) simp
    then show ?thesis
      by blast
  next
    case False
    let ?len = "length (activeList st)"
    obtain i s1 where ni: "nextInt 0 (int ?len) (rng st) = (i, s1)"
      by (cases "nextInt 0 (int ?len) (rng st)")
    from False have pos: "0 < ?len"
      by simp
    from nextInt_index [OF this, of "rng st"] ni have i: "0 \<le> i" "i < int ?len"
      by simp_all
    let ?st1 = "st\<lparr>rng := s1\<rparr>"
    let ?pt = "activeList st ! nat i"
    have "\<exists>s2. attempts (nat m) ?pt d w h cb ?st1 points = Inr (False, ?st1\<lparr>rng := s2\<rparr>, points)"
    proof (cases "m \<le> 0")
      case True
      have "?st1 = ?st1\<lparr>rng := s1\<rparr>"
        by simp
      then have "attempts 0 ?pt d w h cb ?st1 points = Inr (False, ?st1\<lparr>rng := s1\<rparr>, points)"
        by simp
      with True show ?thesis
        by auto
    next
      case False
      with less.prems have "\<And>q. \<not> isValidPoint q d w h ?st1"
        by simp
      then show ?thesis
        by (rule attempts_rejected)
    qed
    then obtain s2 where
      att: "attempts (nat m) ?pt d w h cb ?st1 points = Inr (False, st\<lparr>rng := s2\<rparr>, points)"
      by auto
    let ?st3 = "st\<lparr>rng := s2, activeList := splice1 (nat i) (activeList st)\<rparr>"
    have eq: "sample_loop d w h m cb st points = sample_loop d w h m cb ?st3 points"
      using False ni i att by (subst sample_loop.simps) simp
    have "length (activeList ?st3) < ?len"
      using i pos by (simp add: length_splice1)
    moreover have "m \<le> 0 \<or> (\<forall>q. \<not> isValidPoint q d w h ?st3)"
      using less.prems by simp
    ultimately have "\<exists>s'. sample_loop d w h m cb ?st3 points = Some (Inr (points, s'))"
      by (rule less.hyps)
    with eq show ?thesis
      by simp
  qed
qed

lemma index_zero:
  fixes x c :: real
  assumes "0 < c" and "0 \<le> x" and "8 * x \<le> 7 * c"
  shows "\<lfloor>fl (x / c)\<rfloor> = 0"
proof -
  have "fl (of_int 7 * 2 powi (- 3)) = of_int 7 * 2 powi (- 3)"
    by (rule fl_scaled_int) simp
  then have e: "fl (7 / 8) = 7 / 8"
    by (simp add: power_int_minus)
  have "x / c \<le> 7 / 8"
    using assms by (simp add: field_simps)
  then have "fl (x / c) \<le> fl (7 / 8)"
    by (rule fl_mono)
  then have "fl (x / c) < 1"
    unfolding e by simp
  moreover have "0 \<le> fl (x / c)"
    using assms by (intro fl_nonneg) simp
  ultimately show ?thesis
    by linarith
qed

lemma dimension_one:
  fixes x c :: real
  assumes "0 < c" and "0 < x" and "x \<le> c"
  shows "\<lceil>fl (x / c)\<rceil> = 1"
proof -
  have "x / c \<le> 1"
    using assms by simp
  then have "fl (x / c) \<le> fl 1"
    by (rule fl_mono)
  moreover have "0 < fl (x / c)"
    using assms by (intro fl_positive) simp
  ultimately show ?thesis
    by (simp add: ceiling_eq_iff)
qed

section \<open>Candidates and distances\<close>

lemma candidate_bounds:
  assumes w: "1 \<le> w" and h: "1 \<le> h"
  shows "0 \<le> px (fst (generateRandomPointAround p d w h cb s))"
    and "px (fst (generateRandomPointAround p d w h cb s)) \<le> w - 1"
    and "0 \<le> py (fst (generateRandomPointAround p d w h cb s))"
    and "py (fst (generateRandomPointAround p d w h cb s)) \<le> h - 1"
proof -
  have clamp: "0 \<le> js_round (max 0 (min (real_of_int n - 1) v)) \<and> js_round (max 0 (min (real_of_int n - 1) v)) \<le> n - 1"
    if "1 \<le> n" for n :: int and v :: real
  proof -
    let ?m = "max 0 (min (real_of_int n - 1) v)"
    have "0 \<le> ?m" "?m < real_of_int (n - 1) + 1 / 2"
      using that by (simp_all add: max_def min_def)
    then show ?thesis
      using js_round_range [of ?m "n - 1"] by simp
  qed
  obtain X Y where "fst (generateRandomPointAround p d w h cb s) =
      \<lparr>px = js_round (max 0 (min (real_of_int w - 1) X)),
       py = js_round (max 0 (min (real_of_int h - 1) Y))\<rparr>"
    by (simp add: generateRandomPointAround_def split_beta Let_def)
  with clamp [OF w, of X] clamp [OF h, of Y]
  show "0 \<le> px (fst (generateRandomPointAround p d w h cb s))"
    and "px (fst (generateRandomPointAround p d w h cb s)) \<le> w - 1"
    and "0 \<le> py (fst (generateRandomPointAround p d w h cb s))"
    and "py (fst (generateRandomPointAround p d w h cb s)) \<le> h - 1"
    by simp_all
qed

lemma distance_le:
  fixes k :: int
  assumes p: "0 \<le> px p" "px p \<le> 2 ^ 20" "0 \<le> py p" "py p \<le> 2 ^ 20"
    and q: "0 \<le> px q" "px q \<le> 2 ^ 20" "0 \<le> py q" "py q \<le> 2 ^ 20"
    and k: "0 \<le> k" "k < 2 ^ 53"
    and le: "(px p - px q) * (px p - px q) + (py p - py q) * (py p - py q) \<le> k * k"
  shows "distance p q \<le> real_of_int k"
proof -
  let ?N = "(px p - px q) * (px p - px q) + (py p - py q) * (py p - py q)"
  have "real_of_int ?N \<le> real_of_int (k * k)"
    using le by (simp only: of_int_le_iff)
  then have "real_of_int ?N \<le> (real_of_int k)\<^sup>2"
    by (simp add: power2_eq_square)
  then have "sqrt (real_of_int ?N) \<le> real_of_int k"
    using k(1) by (intro real_le_lsqrt) simp_all
  then have "fl (sqrt (real_of_int ?N)) \<le> fl (real_of_int k)"
    by (rule fl_mono)
  also have "\<dots> = real_of_int k"
    using k by (intro fl_of_int) simp
  finally show ?thesis
    unfolding distance_exact [OF p q] .
qed

lemma square_le:
  fixes a k :: int
  assumes "\<bar>a\<bar> \<le> k"
  shows "a * a \<le> k * k"
proof -
  have "\<bar>a\<bar> * \<bar>a\<bar> \<le> k * k"
    using assms by (intro mult_mono) simp_all
  then show ?thesis
    by (simp add: abs_mult_self_eq)
qed

section \<open>The degenerate canvas\<close>

lemma cell_100:
  assumes "minDistance config = 100"
  shows "50 \<le> config_cellSize config"
proof -
  have "fl (100 / 2) \<le> fl (100 / Math_sqrt 2)"
    by (rule cell_bounds) simp
  moreover have "fl (100 / 2) = 50"
    using fl_of_int [of 50] by simp
  ultimately show ?thesis
    using assms by (simp add: config_cellSize_def)
qed

lemma degenerate_grid:
  assumes "width config = 1" and "height config = 1" and "minDistance config = 100"
  shows "config_gridWidth config = 1" and "config_gridHeight config = 1"
    and "firstRow config s = 0" and "firstCol config s = 0"
proof -
  note c = cell_100 [OF assms(3)]
  show "config_gridWidth config = 1"
    unfolding config_gridWidth_def assms(1) using c by (intro dimension_one) simp_all
  show "config_gridHeight config = 1"
    unfolding config_gridHeight_def assms(2) using c by (intro dimension_one) simp_all
  have "0 \<le> width config" "0 \<le> height config"
    using assms by simp_all
  note fb = firstPoint_bounds [OF this, of s]
  show "firstRow config s = 0"
    unfolding firstRow_def using c fb(3,4) assms(2) by (intro index_zero) simp_all
  show "firstCol config s = 0"
    unfolding firstCol_def using c fb(1,2) assms(1) by (intro index_zero) simp_all
qed

lemma degenerate_rejects:
  assumes "width config = 1" and "height config = 1" and "minDistance config = 100"
  shows "\<not> isValidPoint q 100 1 1 (started_sampler config s)"
proof
  assume v: "isValidPoint q 100 1 1 (started_sampler config s)"
  let ?st = "started_sampler config s"
  let ?fp = "firstPoint config s"
  note c = cell_100 [OF assms(3)]
  note g = degenerate_grid [OF assms]
  from isValidPoint_bounds [OF v] have q: "px q = 0" "py q = 0"
    by simp_all
  have cx: "cellX ?st q = 0"
    unfolding cellX_def using c q by (intro index_zero) simp_all
  have cy: "cellY ?st q = 0"
    unfolding cellY_def using c q by (intro index_zero) simp_all
  have "grid ?st 0 0 = Some ?fp"
    using g by simp
  with v have far: "100 \<le> distance q ?fp"
    by (intro isValidPoint_scan [of q 100 1 1 ?st 0 0 ?fp]) (simp_all add: cx cy g)
  have "0 \<le> width config" "0 \<le> height config"
    using assms by simp_all
  note fb = firstPoint_bounds [OF this, of s]
  have "distance q ?fp \<le> real_of_int 2"
  proof (rule distance_le)
    show "0 \<le> px q" "px q \<le> 2 ^ 20" "0 \<le> py q" "py q \<le> 2 ^ 20"
      using q by simp_all
    show "0 \<le> px ?fp" "px ?fp \<le> 2 ^ 20" "0 \<le> py ?fp" "py ?fp \<le> 2 ^ 20"
      using fb assms by simp_all
    have "(px q - px ?fp) * (px q - px ?fp) \<le> 1 * 1" "(py q - py ?fp) * (py q - py ?fp) \<le> 1 * 1"
      using q fb assms by (intro square_le; simp)+
    then show "(px q - px ?fp) * (px q - px ?fp) + (py q - py ?fp) * (py q - py ?fp) \<le> 2 * 2"
      by simp
  qed simp_all
  with far show False
    by simp
qed

lemma degenerate_returns:
  assumes "width config = 1" and "height config = 1" and "minDistance config = 100"
  shows "\<exists>s'. sample config s = Some (Inr ([firstPoint config s], s'))"
proof -
  note g = degenerate_grid [OF assms]
  have "sample config s =
      sample_loop 100 1 1 (config_maxAttempts config) (config_centerBias config)
        (started_sampler config s) [firstPoint config s]"
    using assms g by (simp add: sample_unfold valid_array_length_def)
  moreover have "\<exists>s'. sample_loop 100 1 1 (config_maxAttempts config) (config_centerBias config)
        (started_sampler config s) [firstPoint config s] = Some (Inr ([firstPoint config s], s'))"
    using degenerate_rejects [OF assms] by (intro sample_loop_rejecting) simp
  ultimately show ?thesis
    by simp
qed

section \<open>A canvas of one cell whose cell side divides its width\<close>

text \<open>
  With \<open>minDistance = 8 * Math.SQRT2\<close> the side of a cell is exactly 8: on a canvas of 8 by 8
  the grid is a single cell, and the coordinate 8, which the first point can have, has the
  index 1.
\<close>

lemma fl_8: "fl 8 = 8"
  using fl_of_int [of 8] by simp

lemma fl_quarter: "fl (1 / 4) = 1 / 4"
proof -
  have "fl (of_int 1 * 2 powi (- 2)) = of_int 1 * 2 powi (- 2)"
    by (rule fl_scaled_int) simp
  then show ?thesis
    by (simp add: power_int_minus)
qed

lemma cell_8:
  assumes "minDistance config = 6369051672525773 / 562949953421312"
  shows "config_cellSize config = 8"
proof -
  have "real_of_rat (6369051672525773 / 562949953421312) / Math_sqrt 2 = 8"
    by (simp add: Math_sqrt2_value of_rat_divide)
  then show ?thesis
    unfolding config_cellSize_def assms by (simp only: fl_8)
qed

lemma one_cell_grid:
  assumes "width config = 8" and "height config = 8"
    and "minDistance config = 6369051672525773 / 562949953421312"
  shows "config_gridWidth config = 1" and "config_gridHeight config = 1"
  using assms by (simp_all add: config_gridWidth_def config_gridHeight_def cell_8)

lemma one_cell_index:
  assumes "0 \<le> x" and "x \<le> 7"
  shows "\<lfloor>fl (real_of_int x / 8)\<rfloor> = 0"
  using assms by (intro index_zero) simp_all

section \<open>Configurations that are not valid\<close>

lemma invalid_rejects:
  assumes "w \<le> 0 \<or> h \<le> 0"
  shows "\<not> isValidPoint q d w h st"
  using assms isValidPoint_bounds [of q d w h st] by auto

lemma negative_distance_rows:
  assumes d: "minDistance config < 0" and h: "0 < height config"
  shows "config_gridHeight config \<le> 0"
proof -
  have "real_of_rat (minDistance config) < 0"
    using d by simp
  then have "real_of_rat (minDistance config) / Math_sqrt 2 < 0"
    using Math_sqrt2_bounds(1) by (simp add: divide_less_0_iff)
  then have "config_cellSize config < 0"
    unfolding config_cellSize_def by (rule fl_negative)
  then have "real_of_int (height config) / config_cellSize config < 0"
    using h by (simp add: divide_less_0_iff)
  then have "fl (real_of_int (height config) / config_cellSize config) < 0"
    by (rule fl_negative)
  then show ?thesis
    unfolding config_gridHeight_def by linarith
qed

lemma sample_points_unfold:
  "sample_points config s =
     (if minDistance config = 0 then Some (Inl RangeError)
      else if \<not> valid_array_length (config_gridHeight config) then Some (Inl RangeError)
      else if 0 < config_gridHeight config \<and> \<not> valid_array_length (config_gridWidth config)
        then Some (Inl RangeError)
      else if firstRow config s < 0 \<or> config_gridHeight config \<le> firstRow config s
        then Some (Inl TypeError)
      else map_option (map_sum id fst)
             (sample_loop (real_of_rat (minDistance config)) (width config) (height config)
                (config_maxAttempts config) (config_centerBias config)
                (started_sampler config s) [firstPoint config s]))"
  unfolding sample_points_def sample_unfold by (simp add: not_le not_less)

lemma sample_invalid_outcome:
  assumes "width config \<le> 0 \<or> height config \<le> 0 \<or> minDistance config \<le> 0
           \<or> config_maxAttempts config \<le> 0"
  shows "sample_points config s =
     Some (if minDistance config = 0 then Inl RangeError
           else if \<not> valid_array_length (config_gridHeight config) then Inl RangeError
           else if 0 < config_gridHeight config \<and> \<not> valid_array_length (config_gridWidth config)
             then Inl RangeError
           else if firstRow config s < 0 \<or> config_gridHeight config \<le> firstRow config s
             then Inl TypeError
           else Inr [firstPoint config s])"
proof (cases "minDistance config \<noteq> 0 \<and> 0 \<le> firstRow config s
              \<and> firstRow config s < config_gridHeight config")
  case False
  then show ?thesis
    by (auto simp: sample_points_unfold)
next
  case True
  have "width config \<le> 0 \<or> height config \<le> 0 \<or> config_maxAttempts config \<le> 0"
  proof (rule ccontr)
    assume "\<not> (width config \<le> 0 \<or> height config \<le> 0 \<or> config_maxAttempts config \<le> 0)"
    with assms True have "minDistance config < 0" "0 < height config"
      by simp_all
    then have "config_gridHeight config \<le> 0"
      by (rule negative_distance_rows)
    with True show False
      by simp
  qed
  then have "config_maxAttempts config \<le> 0
      \<or> (\<forall>q. \<not> isValidPoint q (real_of_rat (minDistance config)) (width config) (height config)
                 (started_sampler config s))"
    using invalid_rejects by blast
  then obtain s' where
    "sample_loop (real_of_rat (minDistance config)) (width config) (height config)
       (config_maxAttempts config) (config_centerBias config)
       (started_sampler config s) [firstPoint config s] = Some (Inr ([firstPoint config s], s'))"
    using sample_loop_rejecting by blast
  then show ?thesis
    by (simp add: sample_points_unfold)
qed

lemma first_point_1337:
  shows "firstPoint \<lparr>width = 1, height = 1, minDistance = d, maxAttempts = m, centerBias = None\<rparr>
           (createRandom 1337) = \<lparr>px = 0, py = 0\<rparr>"
    and "firstPoint \<lparr>width = 0, height = 1, minDistance = d, maxAttempts = m, centerBias = None\<rparr>
           (createRandom 1337) = \<lparr>px = 0, py = 0\<rparr>"
    and "firstPoint \<lparr>width = - 1, height = - 1, minDistance = d, maxAttempts = m, centerBias = None\<rparr>
           (createRandom 1337) = \<lparr>px = 0, py = 0\<rparr>"
    and "firstPoint \<lparr>width = 800, height = 600, minDistance = d, maxAttempts = m, centerBias = None\<rparr>
           (createRandom 1337) = \<lparr>px = 148, py = 114\<rparr>"
  by (simp_all add: firstPoint_def config_centerBias_def generateRandomPoint_def nextFloat_def
      next_def next_value_def next_state_def createRandom_def js_round_def Let_def)

lemma cell_whole:
  fixes n :: int
  assumes "0 < n" and "n < 2 ^ 53" and "minDistance config = of_int n"
  shows "1 / 2 \<le> config_cellSize config" and "config_cellSize config \<le> real_of_int n"
proof -
  show "1 / 2 \<le> config_cellSize config"
    unfolding config_cellSize_def assms(3) using half_le_cell [OF assms(1)] by simp
  have "fl (real_of_int n / Math_sqrt 2) \<le> fl (real_of_int n)"
    using assms(1) by (intro cell_bounds) simp
  also have "\<dots> = real_of_int n"
    using assms(1,2) by (intro fl_of_int) simp
  finally show "config_cellSize config \<le> real_of_int n"
    unfolding config_cellSize_def assms(3) by simp
qed

lemma cell_negated:
  assumes "minDistance config' = - minDistance config"
  shows "config_cellSize config' = - config_cellSize config"
  unfolding config_cellSize_def assms by (simp add: of_rat_minus fl_minus)

lemma dimension_negative:
  fixes x c :: real
  assumes "0 < c" and "c \<le> x"
  shows "\<lceil>fl (- x / c)\<rceil> < 0" and "\<lceil>fl (x / (- c))\<rceil> < 0"
proof -
  have "- x / c \<le> - 1"
    using assms by (simp add: field_simps)
  then have "fl (- x / c) \<le> fl (of_int (- 1))"
    by (intro fl_mono) simp
  also have "\<dots> = of_int (- 1)"
    by (rule fl_of_int) simp
  finally have "fl (- x / c) \<le> - 1"
    by simp
  then show "\<lceil>fl (- x / c)\<rceil> < 0"
    by linarith
  then show "\<lceil>fl (x / (- c))\<rceil> < 0"
    by simp
qed

lemma dimension_whole:
  fixes x c :: real
  assumes "1 / 2 \<le> c" and "c \<le> x" and "x \<le> 2 ^ 30"
  shows "0 < \<lceil>fl (x / c)\<rceil>" and "\<lceil>fl (x / c)\<rceil> \<le> 4294967295"
proof -
  have "0 < x / c"
    using assms by simp
  then have "0 < fl (x / c)"
    by (rule fl_positive)
  then show "0 < \<lceil>fl (x / c)\<rceil>"
    by linarith
  have "x / c \<le> x / (1 / 2)"
    using assms by (intro divide_left_mono) simp_all
  also have "\<dots> \<le> 2 ^ 31"
    using assms(3) by simp
  finally have "fl (x / c) \<le> fl (of_int (2 ^ 31))"
    by (intro fl_mono) simp
  also have "\<dots> = of_int (2 ^ 31)"
    by (rule fl_of_int) simp
  finally show "\<lceil>fl (x / c)\<rceil> \<le> 4294967295"
    by (simp add: ceiling_le_iff)
qed

section \<open>Grids of configurations that are not valid\<close>

lemma zero_width_grid:
  assumes "width config = 0" and "height config = 1" and "minDistance config = 100"
  shows "config_gridWidth config = 0" and "config_gridHeight config = 1"
    and "firstRow config s = 0"
proof -
  note c = cell_100 [OF assms(3)]
  show "config_gridWidth config = 0"
    by (simp add: config_gridWidth_def assms(1))
  show "config_gridHeight config = 1"
    unfolding config_gridHeight_def assms(2) using c by (intro dimension_one) simp_all
  have "0 \<le> width config" "0 \<le> height config"
    using assms by simp_all
  note fb = firstPoint_bounds [OF this, of s]
  show "firstRow config s = 0"
    unfolding firstRow_def using c fb(3,4) assms(2) by (intro index_zero) simp_all
qed

lemma negative_height_grid:
  assumes "height config = - 600" and "minDistance config = 8"
  shows "config_gridHeight config < 0"
proof -
  have c: "1 / 2 \<le> config_cellSize config" "config_cellSize config \<le> real_of_int 8"
    using assms(2) by (intro cell_whole; simp)+
  have "\<lceil>fl (- 600 / config_cellSize config)\<rceil> < 0"
    using c by (intro dimension_negative) simp_all
  then show ?thesis
    by (simp add: config_gridHeight_def assms(1))
qed

lemma negative_distance_grid:
  assumes "height config = 600" and "minDistance config = - 8"
  shows "config_gridHeight config < 0"
proof -
  let ?p = "config\<lparr>minDistance := 8\<rparr>"
  have c: "1 / 2 \<le> config_cellSize ?p" "config_cellSize ?p \<le> real_of_int 8"
    by (intro cell_whole; simp)+
  have n: "config_cellSize config = - config_cellSize ?p"
    by (rule cell_negated) (simp add: assms(2))
  have "\<lceil>fl (600 / (- config_cellSize ?p))\<rceil> < 0"
    using c by (intro dimension_negative) simp_all
  then show ?thesis
    by (simp add: config_gridHeight_def assms(1) n)
qed

lemma negative_width_grid:
  assumes "width config = - 800" and "height config = 600" and "minDistance config = 8"
  shows "0 < config_gridHeight config" and "config_gridHeight config \<le> 4294967295"
    and "config_gridWidth config < 0"
proof -
  have c: "1 / 2 \<le> config_cellSize config" "config_cellSize config \<le> real_of_int 8"
    using assms(3) by (intro cell_whole; simp)+
  have "0 < \<lceil>fl (600 / config_cellSize config)\<rceil>" "\<lceil>fl (600 / config_cellSize config)\<rceil> \<le> 4294967295"
    using c by (intro dimension_whole; simp)+
  then show "0 < config_gridHeight config" and "config_gridHeight config \<le> 4294967295"
    by (simp_all add: config_gridHeight_def assms(2))
  have "\<lceil>fl (- 800 / config_cellSize config)\<rceil> < 0"
    using c by (intro dimension_negative) simp_all
  then show "config_gridWidth config < 0"
    by (simp add: config_gridWidth_def assms(1))
qed

lemma all_negative_grid:
  assumes "width config = - 1" and "height config = - 1" and "minDistance config = - 100"
    and "firstPoint config s = \<lparr>px = 0, py = 0\<rparr>"
  shows "config_gridWidth config = 1" and "config_gridHeight config = 1"
    and "firstRow config s = 0"
proof -
  let ?p = "config\<lparr>minDistance := 100\<rparr>"
  have c: "50 \<le> config_cellSize ?p"
    by (rule cell_100) simp
  have n: "config_cellSize config = - config_cellSize ?p"
    by (rule cell_negated) (simp add: assms(3))
  have one: "\<lceil>fl (1 / config_cellSize ?p)\<rceil> = 1"
    using c by (intro dimension_one) simp_all
  show "config_gridWidth config = 1"
    using one by (simp add: config_gridWidth_def assms(1) n)
  show "config_gridHeight config = 1"
    using one by (simp add: config_gridHeight_def assms(2) n)
  show "firstRow config s = 0"
    by (simp add: firstRow_def assms(4))
qed

section \<open>The point count in doubles\<close>

lemma fl_2_8: "fl 2.8 = 3152519739159347 / 1125899906842624"
proof -
  have "fl 2.8 = of_int 6305039478318694 * 2 powi (1 - 52)"
    by (rule fl_value) (simp_all add: power_int_minus)
  then show ?thesis
    by (simp add: power_int_minus)
qed

lemma fl_close:
  assumes "\<bar>y - x\<bar> \<le> e * \<bar>x\<bar>" and "0 \<le> e"
  shows "\<bar>fl y - x\<bar> \<le> (e + (1 + e) / 2 ^ 53) * \<bar>x\<bar>"
proof -
  have "\<bar>y\<bar> \<le> \<bar>x\<bar> + \<bar>y - x\<bar>"
    by simp
  with assms(1) have "\<bar>y\<bar> \<le> (1 + e) * \<bar>x\<bar>"
    by (simp add: algebra_simps)
  then have "\<bar>y\<bar> / 2 ^ 53 \<le> (1 + e) * \<bar>x\<bar> / 2 ^ 53"
    by (simp add: divide_right_mono)
  moreover have "\<bar>fl y - y\<bar> \<le> \<bar>y\<bar> / 2 ^ 53"
    by (rule fl_error)
  moreover have "\<bar>fl y - x\<bar> \<le> \<bar>fl y - y\<bar> + \<bar>y - x\<bar>"
    by simp
  ultimately have "\<bar>fl y - x\<bar> \<le> (1 + e) * \<bar>x\<bar> / 2 ^ 53 + e * \<bar>x\<bar>"
    using assms(1) by linarith
  then show ?thesis
    by (simp add: algebra_simps)
qed

lemma calculatePointCount_error:
  "\<bar>real_of_int (calculatePointCount w h k) - k * w * h / 1000\<bar>
   \<le> 1 / 2 + \<bar>k * w * h / 1000\<bar> / 2 ^ 51"
proof -
  define u :: real where "u = 1 / 2 ^ 53"
  define e2 where "e2 = u + (1 + u) * u"
  define e3 where "e3 = e2 + (1 + e2) * u"
  define a where "a = fl (w * h)"
  define b where "b = fl (k * a)"
  define c where "c = fl (b / 1000)"
  define x where "x = k * w * h / 1000"
  have u0: "0 \<le> u" and e20: "0 \<le> e2"
    by (simp_all add: u_def e2_def)
  have "\<bar>w * h - w * h\<bar> \<le> 0 * \<bar>w * h\<bar>"
    by simp
  from fl_close [OF this] have a: "\<bar>a - w * h\<bar> \<le> u * \<bar>w * h\<bar>"
    by (simp add: a_def u_def)
  have "\<bar>k * a - k * (w * h)\<bar> = \<bar>k\<bar> * \<bar>a - w * h\<bar>"
    by (simp add: abs_mult flip: right_diff_distrib)
  also have "\<dots> \<le> \<bar>k\<bar> * (u * \<bar>w * h\<bar>)"
    using a by (intro mult_left_mono) simp_all
  also have "\<dots> = u * \<bar>k * (w * h)\<bar>"
    by (simp add: abs_mult)
  finally have "\<bar>k * a - k * (w * h)\<bar> \<le> u * \<bar>k * (w * h)\<bar>" .
  from fl_close [OF this u0] have b: "\<bar>b - k * (w * h)\<bar> \<le> e2 * \<bar>k * (w * h)\<bar>"
    by (simp add: b_def e2_def u_def)
  have "\<bar>b / 1000 - x\<bar> = \<bar>b - k * (w * h)\<bar> / 1000"
    by (simp add: x_def mult.assoc flip: diff_divide_distrib)
  also have "\<dots> \<le> e2 * \<bar>k * (w * h)\<bar> / 1000"
    using b by (simp add: divide_right_mono)
  also have "\<dots> = e2 * \<bar>x\<bar>"
    by (simp add: x_def mult.assoc)
  finally have "\<bar>b / 1000 - x\<bar> \<le> e2 * \<bar>x\<bar>" .
  from fl_close [OF this e20] have "\<bar>c - x\<bar> \<le> e3 * \<bar>x\<bar>"
    by (simp add: c_def e3_def u_def)
  moreover have "e3 \<le> 1 / 2 ^ 51"
    by (simp add: e3_def e2_def u_def)
  then have "e3 * \<bar>x\<bar> \<le> 1 / 2 ^ 51 * \<bar>x\<bar>"
    by (intro mult_right_mono) simp_all
  ultimately have cx: "\<bar>c - x\<bar> \<le> \<bar>x\<bar> / 2 ^ 51"
    by simp
  have "\<bar>real_of_int (js_round c) - c\<bar> \<le> 1 / 2"
    unfolding js_round_def by linarith
  moreover have "\<bar>real_of_int (js_round c) - x\<bar> \<le> \<bar>real_of_int (js_round c) - c\<bar> + \<bar>c - x\<bar>"
    by simp
  ultimately have "\<bar>real_of_int (js_round c) - x\<bar> \<le> 1 / 2 + \<bar>x\<bar> / 2 ^ 51"
    using cx by linarith
  then show ?thesis
    by (simp add: calculatePointCount_def Let_def c_def b_def a_def x_def)
qed

lemma point_count_150_75: "calculatePointCount 150 75 (fl 2.8) = 31"
proof -
  have a: "fl (150 * 75) = 11250"
    using fl_of_int [of 11250] by simp
  have "fl (3152519739159347 / 1125899906842624 * 11250) = of_int 8658654068735999 * 2 powi (14 - 52)"
    by (rule fl_value) (simp_all add: power_int_minus)
  then have b: "fl (3152519739159347 / 1125899906842624 * 11250) = 8658654068735999 / 274877906944"
    by (simp add: power_int_minus)
  have "fl (8658654068735999 / 274877906944 / 1000) = of_int 8866461766385663 * 2 powi (4 - 52)"
    by (rule fl_value) (simp_all add: power_int_minus)
  then have c: "fl (8658654068735999 / 274877906944 / 1000) = 8866461766385663 / 281474976710656"
    by (simp add: power_int_minus)
  show ?thesis
    unfolding calculatePointCount_def Let_def fl_2_8 a b c by (simp add: js_round_def)
qed

lemma point_count_150_225: "calculatePointCount 150 225 (fl 2.8) = 95"
proof -
  have a: "fl (150 * 225) = 33750"
    using fl_of_int [of 33750] by simp
  have "fl (3152519739159347 / 1125899906842624 * 33750) = of_int 6493990551552000 * 2 powi (16 - 52)"
    by (rule fl_value) (simp_all add: power_int_minus)
  then have b: "fl (3152519739159347 / 1125899906842624 * 33750) = 94500"
    by (simp add: power_int_minus)
  have "fl (of_int 189 * 2 powi (- 1)) = of_int 189 * 2 powi (- 1)"
    by (rule fl_scaled_int) simp
  then have c: "fl (94500 / 1000) = 189 / 2"
    by (simp add: power_int_minus)
  show ?thesis
    unfolding calculatePointCount_def Let_def fl_2_8 a b c by (simp add: js_round_def)
qed

lemma point_count_1000_1000: "calculatePointCount 1000 1000 (fl 2.8) = 2800"
proof -
  have a: "fl (1000 * 1000) = 1000000"
    using fl_of_int [of 1000000] by simp
  have "fl (3152519739159347 / 1125899906842624 * 1000000) = of_int 6012954214400000 * 2 powi (21 - 52)"
    by (rule fl_value) (simp_all add: power_int_minus)
  then have b: "fl (3152519739159347 / 1125899906842624 * 1000000) = 2800000"
    by (simp add: power_int_minus)
  have c: "fl (2800000 / 1000) = 2800"
    using fl_of_int [of 2800] by simp
  show ?thesis
    unfolding calculatePointCount_def Let_def fl_2_8 a b c by (simp add: js_round_def)
qed

section \<open>Layers and the scene\<close>

lemma snap_id: "snap n = n"
  by (simp add: snap_def js_round_def)

lemma star_sprites_spec:
  "star_sprites layer points s =
     spec_generate_layer (spec_placement (star_size_draw layer)
        (star_color_draw layer SPACE_PALETTE) (star_alpha_draw layer)) points s"
proof (induction points arbitrary: s)
  case Nil
  show ?case
    by simp
next
  case (Cons point points)
  have step: "(let (config, s1) = generateStarConfig s layer SPACE_PALETTE
               in (\<lparr>sprite_x = snap (px point), sprite_y = snap (py point),
                    sprite_scale = star_size config, sprite_tint = star_color config,
                    sprite_alpha = star_alpha config\<rparr>, s1))
        = spec_placement (star_size_draw layer) (star_color_draw layer SPACE_PALETTE)
            (star_alpha_draw layer) point s"
    by (cases layer)
       (simp_all add: generateStarConfig_def spec_placement_def star_size_draw_def
          star_color_draw_def star_alpha_draw_def snap_id split_beta Let_def)
  show ?case
    by (simp add: step [symmetric] Cons.IH split_beta Let_def)
qed

lemma sparkle_sprites_spec:
  "sparkle_sprites points s =
     spec_generate_layer (spec_placement sparkle_size_draw
        (sparkle_color_draw SPACE_PALETTE) sparkle_alpha_draw) points s"
proof (induction points arbitrary: s)
  case Nil
  show ?case
    by simp
next
  case (Cons point points)
  have step: "(let (config, s1) = generateSparkleConfig s SPACE_PALETTE
               in (\<lparr>sprite_x = snap (px point), sprite_y = snap (py point),
                    sprite_scale = sparkle_size config, sprite_tint = sparkle_color config,
                    sprite_alpha = sparkle_alpha config\<rparr>, s1))
        = spec_placement sparkle_size_draw (sparkle_color_draw SPACE_PALETTE)
            sparkle_alpha_draw point s"
    by (simp add: generateSparkleConfig_def spec_placement_def sparkle_size_draw_def
          sparkle_color_draw_def sparkle_alpha_draw_def snap_id split_beta Let_def)
  show ?case
    by (simp add: step [symmetric] Cons.IH split_beta Let_def)
qed

lemma spec_generate_layer_append:
  "spec_generate_layer f (ps @ qs) s =
     (let (rs, s1) = spec_generate_layer f ps s;
          (rs', s2) = spec_generate_layer f qs s1
      in (rs @ rs', s2))"
  by (induction ps arbitrary: s) (simp_all add: split_beta Let_def)

lemma spec_generate_layer_positions:
  "map (\<lambda>sp. (sprite_x sp, sprite_y sp))
       (fst (spec_generate_layer (spec_placement a b c) points s))
   = map (\<lambda>p. (px p, py p)) points"
  by (induction points arbitrary: s) (simp_all add: split_beta Let_def spec_placement_def)

lemma nebula_patches_spec:
  "nebula_patches W H points s = spec_generate_layer (nebula_placement W H) points s"
proof (induction points arbitrary: s)
  case Nil
  show ?case
    by simp
next
  case (Cons point points)
  have step: "(let (r, s1) = nextFloat 0.28 0.35 s;
                   radius = r * real_of_int (min W H);
                   (patch, s2) = createNebulaPatch (snap (px point)) (snap (py point)) radius s1
               in (Patch patch, s2))
        = nebula_placement W H point s"
    by (simp add: nebula_placement_def createNebulaPatch_def snap_id split_beta Let_def)
  show ?case
    by (simp add: step [symmetric] Cons.IH split_beta Let_def)
qed

lemma ribbon_streaks_draws:
  "snd (ribbon_streaks n radius s) = (next_state ^^ (4 * n)) s
   \<and> length (fst (ribbon_streaks n radius s)) = n"
proof (induction n arbitrary: s)
  case 0
  show ?case
    by simp
next
  case (Suc n)
  have "snd (createRibbonStreak radius s) = (next_state ^^ 4) s"
    by (simp add: createRibbonStreak_def nextInt_def nextFloat_def next_def split_beta Let_def
        eval_nat_numeral)
  moreover have "(next_state ^^ (4 * n + 4)) s = (next_state ^^ (4 * n)) ((next_state ^^ 4) s)"
    by (simp only: funpow_add o_apply)
  then have "(next_state ^^ (4 + 4 * n)) s = (next_state ^^ (4 * n)) ((next_state ^^ 4) s)"
    by (simp only: add.commute)
  ultimately show ?case
    using Suc [of "snd (createRibbonStreak radius s)"]
    by (simp add: split_beta Let_def del: funpow.simps)
qed

lemma layer_sampled:
  fixes n :: int
  assumes "0 < W" and "W \<le> 2 ^ 20" and "0 < H" and "H \<le> 2 ^ 20" and "0 < n"
  shows "\<exists>points s'. generatePoissonPoints s
           \<lparr>width = W, height = H, minDistance = of_int n, maxAttempts = m, centerBias = b\<rparr>
         = Some (Inr (points, s'))"
proof -
  let ?c = "\<lparr>width = W, height = H, minDistance = of_int n, maxAttempts = m, centerBias = b\<rparr>"
  from sample_returns_int [of ?c n s] assms show ?thesis
    unfolding generatePoissonPoints_def by auto
qed

lemma regenerate_returns:
  assumes W: "0 < W" "W \<le> 2 ^ 20" and H: "0 < H" "H \<le> 2 ^ 20"
  shows "\<exists>layers. regenerate seed W H before = Some (Inr layers)"
proof -
  obtain p1 s1 where l1: "generatePoissonPoints (createRandom seed)
      \<lparr>width = W, height = H, minDistance = 8, maxAttempts = None, centerBias = Some (1 / 2)\<rparr>
      = Some (Inr (p1, s1))"
    using layer_sampled [of W H 8 "createRandom seed" None "Some (1 / 2)"] W H by auto
  obtain r1 s2 where g1: "star_sprites Micro p1 s1 = (r1, s2)"
    by (cases "star_sprites Micro p1 s1")
  obtain p2 s3 where l2: "generatePoissonPoints s2
      \<lparr>width = W, height = H, minDistance = 12, maxAttempts = None, centerBias = Some (1 / 2)\<rparr>
      = Some (Inr (p2, s3))"
    using layer_sampled [of W H 12 s2 None "Some (1 / 2)"] W H by auto
  obtain r2 s4 where g2: "star_sprites Small p2 s3 = (r2, s4)"
    by (cases "star_sprites Small p2 s3")
  obtain p3 s5 where l3: "generatePoissonPoints s4
      \<lparr>width = W, height = H, minDistance = 20, maxAttempts = None, centerBias = Some (3 / 10)\<rparr>
      = Some (Inr (p3, s5))"
    using layer_sampled [of W H 20 s4 None "Some (3 / 10)"] W H by auto
  obtain r3 s6 where g3: "sparkle_sprites p3 s5 = (r3, s6)"
    by (cases "sparkle_sprites p3 s5")
  obtain p4 s7 where l4: "generatePoissonPoints s6
      \<lparr>width = W, height = H, minDistance = 80, maxAttempts = None, centerBias = Some (1 / 5)\<rparr>
      = Some (Inr (p4, s7))"
    using layer_sampled [of W H 80 s6 None "Some (1 / 5)"] W H by auto
  obtain r4 s8 where g4: "nebula_patches W H p4 s7 = (r4, s8)"
    by (cases "nebula_patches W H p4 s7")
  show ?thesis
    unfolding regenerate_def using l1 g1 l2 g2 l3 g3 l4 g4 by (simp add: Let_def)
qed

lemma nextInt_range:
  assumes "lo < hi"
  shows "lo \<le> fst (nextInt lo hi s)" and "fst (nextInt lo hi s) < hi"
proof -
  let ?u = "fst (next s)"
  have u: "0 \<le> ?u" "?u < 1"
    using next_range [of s] by simp_all
  have pos: "0 < real_of_int (hi - lo)"
    using assms by simp
  have "0 \<le> ?u * real_of_int (hi - lo)"
    using u(1) pos by simp
  moreover have "?u * real_of_int (hi - lo) < real_of_int (hi - lo)"
    using u(2) pos by simp
  ultimately have "0 \<le> \<lfloor>?u * real_of_int (hi - lo)\<rfloor>" "\<lfloor>?u * real_of_int (hi - lo)\<rfloor> < hi - lo"
    by (simp_all add: floor_less_iff)
  then show "lo \<le> fst (nextInt lo hi s)" and "fst (nextInt lo hi s) < hi"
    by (simp_all add: nextInt_def split_beta)
qed

lemma star_placement_draws:
  "snd (spec_placement (star_size_draw layer) (star_color_draw layer SPACE_PALETTE)
          (star_alpha_draw layer) point s) = (next_state ^^ 3) s
   \<or> snd (spec_placement (star_size_draw layer) (star_color_draw layer SPACE_PALETTE)
          (star_alpha_draw layer) point s) = (next_state ^^ 4) s"
  by (cases layer)
     (simp_all add: spec_placement_def star_size_draw_def star_color_draw_def star_alpha_draw_def
        nextBoolean_def nextInt_def nextFloat_def next_def split_beta Let_def eval_nat_numeral)

lemma sparkle_placement_draws:
  "snd (spec_placement sparkle_size_draw (sparkle_color_draw SPACE_PALETTE) sparkle_alpha_draw
          point s) = (next_state ^^ 3) s"
  by (simp add: spec_placement_def sparkle_size_draw_def sparkle_color_draw_def
      sparkle_alpha_draw_def nextInt_def nextFloat_def next_def split_beta Let_def eval_nat_numeral)

lemma snd_nextFloat: "snd (nextFloat lo hi s) = next_state s"
  by (simp add: nextFloat_def next_def)

lemma snd_nextInt: "snd (nextInt lo hi s) = next_state s"
  by (simp add: nextInt_def next_def)

lemma nebula_placement_draws:
  "snd (nebula_placement W H point s)
   = (next_state ^^ (4 * nat (fst (nextInt 2 5 ((next_state ^^ 3) s))))) ((next_state ^^ 4) s)"
proof -
  have 3: "(next_state ^^ 3) s = next_state (next_state (next_state s))"
    and 4: "(next_state ^^ 4) s = next_state (next_state (next_state (next_state s)))"
    by (simp_all add: eval_nat_numeral)
  show ?thesis
    unfolding nebula_placement_def 3 4
    by (simp add: split_beta Let_def ribbon_streaks_draws snd_nextFloat snd_nextInt
        del: funpow.simps)
qed

text \<open>Draws from the state after \<open>n\<close> draws.\<close>

lemma state_after_0: "createRandom seed = state_after seed 0"
  by (simp add: state_after_def)

lemma nextFloat_after:
  "nextFloat lo hi (state_after seed n) = (draw seed n * (hi - lo) + lo, state_after seed (Suc n))"
  by (simp add: nextFloat_def draw_def state_after_def split_beta)

lemma nextInt_after:
  "nextInt lo hi (state_after seed n)
   = (\<lfloor>draw seed n * real_of_int (hi - lo)\<rfloor> + lo, state_after seed (Suc n))"
  by (simp add: nextInt_def draw_def state_after_def split_beta)

lemma draws_1337:
  shows "\<lfloor>draw 1337 3 * 3\<rfloor> = 1" and "\<lfloor>draw 1337 4 * 9\<rfloor> = 3"
    and "\<lfloor>draw 1337 8 * 9\<rfloor> = 4" and "\<lfloor>draw 1337 12 * 9\<rfloor> = 4"
  by (simp_all add: draw_def state_after_closed next_def next_value_def next_state_def)

section \<open>Claims about the generator and the point count\<close>

text \<open>
  C6. Any integer seed, zero and negative ones included, gives a generator; every draw is a
  number in the half-open interval from 0 to 1; the state before the \<open>n\<close>-th draw is the seed plus
  \<open>n\<close> times the increment, modulo \<open>2 ^ 32\<close>, so the sequence is a function of the seed and the
  number of draws alone.
\<close>

theorem next_unit_interval:
  "0 \<le> draw seed n \<and> draw seed n < 1
   \<and> state_after seed n = word_of_int seed + of_nat n * 0x6d2b79f5
   \<and> draw seed n = real (unat (next_value (word_of_int seed + of_nat n * 0x6d2b79f5))) / 2 ^ 32"
proof -
  have "draw seed n = real (unat (next_value (state_after seed n))) / 2 ^ 32"
    by (simp add: draw_def next_def)
  then show ?thesis
    using next_range [of "state_after seed n"] state_after_closed [of seed n]
    by (simp add: draw_def)
qed

text \<open>
  C7. \<open>pointInCircle\<close> makes two draws: the first, scaled to the full turn, is the angle; the
  second is the radius, through the square root: \<open>sqrt u * radius\<close>. The state it leaves is
  the state after two draws.
\<close>

theorem pointInCircle_two_draws:
  "pointInCircle radius s =
     (let u1 = fst (next s); s1 = snd (next s);
          u2 = fst (next s1); s2 = snd (next s1);
          angle = u1 * (2 * pi);
          r = sqrt u2 * radius
      in ((cos angle * r, sin angle * r), s2))"
  by (simp add: pointInCircle_def nextFloat_def Let_def split_beta mult.commute)

text \<open>
  C9 as stated fails: the function rounds in doubles, and the result is not always the
  rounding of the exact value. For a canvas of 150 by 75 and the density 2.8 the product
  \<open>2.8 * 11250\<close> is the double just below 31500, and the count is 31, while
  \<open>round (2.8 * 150 * 75 / 1000)\<close> is 32. Nor is it the rounding of the exact value computed
  from the double nearest to 2.8: for 150 by 225 the count is 95, that value rounds to 94.
\<close>

theorem point_count_not_exact:
  "calculatePointCount 150 75 (fl 2.8) = 31 \<and> js_round (2.8 * 150 * 75 / 1000) = 32
   \<and> calculatePointCount 150 225 (fl 2.8) = 95 \<and> js_round (fl 2.8 * 150 * 225 / 1000) = 94"
proof -
  have a: "js_round (2.8 * 150 * 75 / 1000) = 32"
    by (simp add: js_round_def)
  have b: "js_round (fl 2.8 * 150 * 225 / 1000) = 94"
    unfolding fl_2_8 by (simp add: js_round_def)
  from point_count_150_75 a point_count_150_225 b show ?thesis
    by (intro conjI)
qed

text \<open>
  C9, amended. The point count is \<open>Math.round\<close> of the double that the three operations of
  the source give: the product of width and height rounded, its product with the density
  rounded, the quotient by 1000 rounded. It differs from the exact value of density times
  width times height over 1000 by at most a half plus that value's \<open>2 ^ - 51\<close>-th part; for a
  1000 by 1000 canvas and the density 2.8 it is 2800.
\<close>

theorem calculatePointCount_rounded:
  "calculatePointCount w h densityPerK = js_round (fl (fl (densityPerK * fl (w * h)) / 1000))
   \<and> \<bar>real_of_int (calculatePointCount w h densityPerK) - densityPerK * w * h / 1000\<bar>
       \<le> 1 / 2 + \<bar>densityPerK * w * h / 1000\<bar> / 2 ^ 51
   \<and> calculatePointCount 1000 1000 (fl 2.8) = 2800"
  using calculatePointCount_error [of w h densityPerK] point_count_1000_1000
  by (simp add: calculatePointCount_def Let_def)

section \<open>Claims about the sampler\<close>




text \<open>
  C2. The first point is never compared with the grid, and it can lie on the right edge of
  the canvas, in a column that the grid does not have and that \<open>isValidPoint\<close> never scans.
  On an 8 by 8 canvas with minimum distance \<open>8 * Math.SQRT2\<close> (about 11.31) the side of a cell
  is exactly 8 and the grid is the single cell (0, 0). With seed 43 the first point is (8, 2),
  stored in column 1; the first candidate, anywhere in the canvas, finds the cell (0, 0) empty
  and is accepted; every later candidate is rejected. The sampler returns two points that
  are less than the minimum distance apart, by more than one unit.
\<close>

theorem first_point_too_close:
  "\<exists>q s'. sample \<lparr>width = 8, height = 8, minDistance = 6369051672525773 / 562949953421312,
                   maxAttempts = None, centerBias = None\<rparr> (createRandom 43)
            = Some (Inr ([\<lparr>px = 8, py = 2\<rparr>, q], s'))
      \<and> \<lparr>px = 8, py = 2\<rparr> \<noteq> q
      \<and> distance \<lparr>px = 8, py = 2\<rparr> q < real_of_rat (6369051672525773 / 562949953421312) - 1"
proof -
  let ?c = "\<lparr>width = 8, height = 8, minDistance = 6369051672525773 / 562949953421312,
             maxAttempts = None, centerBias = None\<rparr>"
  let ?p = "\<lparr>px = 8, py = 2\<rparr>"
  let ?s0 = "createRandom 43"
  let ?st = "started_sampler ?c ?s0"
  define D where "D = real_of_rat (6369051672525773 / 562949953421312)"
  have D: "D = 6369051672525773 / 562949953421312"
    by (simp add: D_def of_rat_divide)
  have cfg: "real_of_rat (minDistance ?c) = D" "width ?c = 8" "height ?c = 8"
    "config_maxAttempts ?c = 30" "config_centerBias ?c = 0"
    by (simp_all add: D_def config_maxAttempts_def config_centerBias_def)
  have cell: "config_cellSize ?c = 8"
    by (rule cell_8) simp
  have g: "config_gridWidth ?c = 1" "config_gridHeight ?c = 1"
    by (rule one_cell_grid; simp)+
  have fp: "firstPoint ?c ?s0 = ?p"
    by (simp add: firstPoint_def config_centerBias_def generateRandomPoint_def nextFloat_def
        next_def next_value_def next_state_def createRandom_def js_round_def Let_def)
  have row: "firstRow ?c ?s0 = 0"
    by (simp add: firstRow_def fp cell fl_quarter)
  have col: "firstCol ?c ?s0 = 1"
    by (simp add: firstCol_def fp cell)
  have start: "sample ?c ?s0 = sample_loop D 8 8 30 0 ?st [?p]"
    unfolding sample_unfold cfg fp by (simp add: g row valid_array_length_def)
  have act: "activeList ?st = [?p]"
    by (simp add: fp)
  obtain i s1 where ni: "nextInt 0 (int (length (activeList ?st))) (rng ?st) = (i, s1)"
    by (cases "nextInt 0 (int (length (activeList ?st))) (rng ?st)")
  from nextInt_index [of 1 "rng ?st"] ni act have i: "i = 0"
    by simp
  obtain q s2 where cand: "generateRandomPointAround ?p D 8 8 0 s1 = (q, s2)"
    by (cases "generateRandomPointAround ?p D 8 8 0 s1")
  from candidate_bounds [of 8 8 ?p D 0 s1] cand
  have qb: "0 \<le> px q" "px q \<le> 7" "0 \<le> py q" "py q \<le> 7"
    by simp_all
  let ?st1 = "?st\<lparr>rng := s2\<rparr>"
  have qx: "\<lfloor>fl (real_of_int (px q) / 8)\<rfloor> = 0" and qy: "\<lfloor>fl (real_of_int (py q) / 8)\<rfloor> = 0"
    using qb by (simp_all add: one_cell_index)
  have valid: "isValidPoint q D 8 8 ?st1"
    using qb by (simp add: isValidPoint_def Let_def cell g row col qx qy)
  define st3 where "st3 = ?st1\<lparr>activeList := [?p, q],
      grid := (grid ?st1)(0 := (grid ?st1 0)(0 := Some q))\<rparr>"
  have add: "addPoint q [?p] ?st1 = Inr (st3, [?p, q])"
    by (simp add: addPoint_def Let_def cell g qx qy st3_def fp)
  have n30: "nat 30 = Suc 29"
    by simp
  have att: "attempts (nat 30) ?p D 8 8 0 (?st\<lparr>rng := s1\<rparr>) [?p] = Inr (True, st3, [?p, q])"
    unfolding n30 using valid add by (subst attempts.simps) (simp add: cand Let_def)
  have step: "sample_loop D 8 8 30 0 ?st [?p] = sample_loop D 8 8 30 0 st3 [?p, q]"
    using ni i att by (subst sample_loop.simps) (simp add: act fp)
  have st3: "cellSize st3 = 8" "gridWidth st3 = 1" "gridHeight st3 = 1" "grid st3 0 0 = Some q"
    by (simp_all add: st3_def cell g)
  have near: "distance r q \<le> real_of_int 10"
    if "0 \<le> px r" "px r \<le> 8" "0 \<le> py r" "py r \<le> 7" "\<bar>py r - py q\<bar> \<le> 5 \<or> px r \<le> 7" for r
  proof (rule distance_le)
    show "0 \<le> px r" "px r \<le> 2 ^ 20" "0 \<le> py r" "py r \<le> 2 ^ 20"
      using that by simp_all
    show "0 \<le> px q" "px q \<le> 2 ^ 20" "0 \<le> py q" "py q \<le> 2 ^ 20"
      using qb by simp_all
    from that(5) show "(px r - px q) * (px r - px q) + (py r - py q) * (py r - py q) \<le> 10 * 10"
    proof
      assume "\<bar>py r - py q\<bar> \<le> 5"
      then have "(py r - py q) * (py r - py q) \<le> 5 * 5"
        by (rule square_le)
      moreover have "(px r - px q) * (px r - px q) \<le> 8 * 8"
        using that qb by (intro square_le) simp
      ultimately show ?thesis
        by simp
    next
      assume "px r \<le> 7"
      then have "(px r - px q) * (px r - px q) \<le> 7 * 7"
        using that qb by (intro square_le) simp
      moreover have "(py r - py q) * (py r - py q) \<le> 7 * 7"
        using that qb by (intro square_le) simp
      ultimately show ?thesis
        by simp
    qed
  qed simp_all
  have rej: "\<not> isValidPoint r D 8 8 st3" for r
  proof
    assume v: "isValidPoint r D 8 8 st3"
    note rb = isValidPoint_bounds [OF v]
    have rx: "cellX st3 r = 0" and ry: "cellY st3 r = 0"
      using rb by (simp_all add: cellX_def cellY_def st3 one_cell_index)
    from v have "D \<le> distance r q"
      by (rule isValidPoint_scan [of r D 8 8 st3 0 0 q]) (simp_all add: rx ry st3)
    moreover have "distance r q \<le> real_of_int 10"
      using rb by (intro near) simp_all
    ultimately show False
      by (simp add: D)
  qed
  then have "\<exists>s'. sample_loop D 8 8 30 0 st3 [?p, q] = Some (Inr ([?p, q], s'))"
    by (intro sample_loop_rejecting) simp
  then obtain s' where "sample ?c ?s0 = Some (Inr ([?p, q], s'))"
    using start step by auto
  moreover have "?p \<noteq> q"
    using qb by auto
  moreover have "distance ?p q < D - 1"
  proof -
    have "distance ?p q \<le> real_of_int 10"
      using qb by (intro near) simp_all
    then show ?thesis
      by (simp add: D)
  qed
  ultimately show ?thesis
    unfolding D_def by blast
qed

text \<open>
  C8. On a canvas of width 1 and height 1 with minimum distance 100, whatever the state of
  the generator (and whatever the number of attempts and the centre bias), the sampler returns
  exactly one point, the first point: the loop ends with no candidate accepted.
\<close>

theorem degenerate_canvas:
  assumes "width config = 1" and "height config = 1" and "minDistance config = 100"
  shows "\<exists>s'. sample config s = Some (Inr ([firstPoint config s], s'))"
  using assms by (rule degenerate_returns)

theorem degenerate_canvas_witness:
  "\<exists>s'. sample \<lparr>width = 1, height = 1, minDistance = 100, maxAttempts = None, centerBias = None\<rparr>
          (createRandom 1) = Some (Inr ([\<lparr>px = 1, py = 0\<rparr>], s'))"
proof -
  let ?c = "\<lparr>width = 1, height = 1, minDistance = 100, maxAttempts = None, centerBias = None\<rparr>"
  have "firstPoint ?c (createRandom 1) = \<lparr>px = 1, py = 0\<rparr>"
    by (simp add: firstPoint_def config_centerBias_def generateRandomPoint_def nextFloat_def
        next_def next_value_def next_state_def createRandom_def js_round_def Let_def)
  with degenerate_canvas [of ?c "createRandom 1"] show ?thesis
    by simp
qed

text \<open>
  C3. The first point is not checked against the canvas, and \<open>Math.round\<close> of a number just
  below the width is the width. With seed 3957 the first layer of an 800 by 600 canvas
  (minimum distance 8, centre bias 0.5) starts with the point (800, 504), whose \<open>x\<close> is the
  width itself.
\<close>

theorem first_point_on_right_edge:
  "\<exists>ext s'. sample \<lparr>width = 800, height = 600, minDistance = 8, maxAttempts = None,
                      centerBias = Some (1 / 2)\<rparr> (createRandom 3957)
              = Some (Inr (\<lparr>px = 800, py = 504\<rparr> # ext, s'))"
proof -
  let ?c = "\<lparr>width = 800, height = 600, minDistance = 8, maxAttempts = None,
             centerBias = Some (1 / 2)\<rparr>"
  have fp: "firstPoint ?c (createRandom 3957) = \<lparr>px = 800, py = 504\<rparr>"
    by (simp add: firstPoint_def config_centerBias_def generateRandomPoint_def nextFloat_def
        next_def next_value_def next_state_def createRandom_def js_round_def Let_def of_rat_divide)
  from sample_returns_int [of ?c 8 "createRandom 3957"] show ?thesis
    unfolding fp by auto
qed

text \<open>
  C4 as stated fails: with zero attempts on a valid canvas, and with width zero, the sampler
  raises nothing and returns the first point.
\<close>

theorem sample_accepts_invalid_config:
  "sample_points \<lparr>width = 1, height = 1, minDistance = 100, maxAttempts = Some 0,
                   centerBias = None\<rparr> (createRandom 1337) = Some (Inr [\<lparr>px = 0, py = 0\<rparr>])
   \<and> sample_points \<lparr>width = 0, height = 1, minDistance = 100, maxAttempts = None,
                     centerBias = None\<rparr> (createRandom 1337) = Some (Inr [\<lparr>px = 0, py = 0\<rparr>])"
proof
  let ?a = "\<lparr>width = 1, height = 1, minDistance = 100, maxAttempts = Some 0, centerBias = None\<rparr>"
  let ?b = "\<lparr>width = 0, height = 1, minDistance = 100, maxAttempts = None, centerBias = None\<rparr>"
  have ga: "config_gridWidth ?a = 1" "config_gridHeight ?a = 1" "firstRow ?a (createRandom 1337) = 0"
    by (rule degenerate_grid; simp)+
  from sample_invalid_outcome [of ?a "createRandom 1337"]
  show "sample_points ?a (createRandom 1337) = Some (Inr [\<lparr>px = 0, py = 0\<rparr>])"
    by (simp add: config_maxAttempts_def ga valid_array_length_def first_point_1337)
  have gb: "config_gridWidth ?b = 0" "config_gridHeight ?b = 1" "firstRow ?b (createRandom 1337) = 0"
    by (rule zero_width_grid; simp)+
  from sample_invalid_outcome [of ?b "createRandom 1337"]
  show "sample_points ?b (createRandom 1337) = Some (Inr [\<lparr>px = 0, py = 0\<rparr>])"
    by (simp add: gb valid_array_length_def first_point_1337)
qed

text \<open>
  C4, amended. \<open>sample\<close> has no validation step; what an invalid configuration does is what
  the array operations do with it. For every configuration with width at most 0, height at
  most 0, minimum distance at most 0 or at most 0 attempts, the outcome is, in this order:
  \<^item> a RangeError at the allocation of the grid, before any draw, when the minimum distance is
    0, when the number of rows \<open>ceil (height / cellSize)\<close> is negative or above \<open>2 ^ 32 - 1\<close>, or
    when there is a row and the number of columns \<open>ceil (width / cellSize)\<close> is negative or above
    \<open>2 ^ 32 - 1\<close>;
  \<^item> a TypeError when the first point is stored, if the grid has no row of its index
    \<open>floor (y / cellSize)\<close>, in particular if the grid has no row at all;
  \<^item> otherwise no error: every candidate is rejected, or none is drawn, and the list of the
    first point alone is returned.

  So a negative minimum distance with a positive height always ends in one of the two errors,
  while zero or negative width, zero attempts, and width, height and minimum distance all
  negative can return a list.
\<close>

theorem sample_unvalidated:
  assumes "width config \<le> 0 \<or> height config \<le> 0 \<or> minDistance config \<le> 0
           \<or> config_maxAttempts config \<le> 0"
  shows "sample_points config s =
     Some (if minDistance config = 0 then Inl RangeError
           else if \<not> valid_array_length (config_gridHeight config) then Inl RangeError
           else if 0 < config_gridHeight config \<and> \<not> valid_array_length (config_gridWidth config)
             then Inl RangeError
           else if firstRow config s < 0 \<or> config_gridHeight config \<le> firstRow config s
             then Inl TypeError
           else Inr [firstPoint config s])
     \<and> (minDistance config < 0 \<and> 0 < height config \<longrightarrow>
          sample_points config s = Some (Inl RangeError)
          \<or> sample_points config s = Some (Inl TypeError))"
proof
  show eq: "sample_points config s =
     Some (if minDistance config = 0 then Inl RangeError
           else if \<not> valid_array_length (config_gridHeight config) then Inl RangeError
           else if 0 < config_gridHeight config \<and> \<not> valid_array_length (config_gridWidth config)
             then Inl RangeError
           else if firstRow config s < 0 \<or> config_gridHeight config \<le> firstRow config s
             then Inl TypeError
           else Inr [firstPoint config s])"
    using assms by (rule sample_invalid_outcome)
  show "minDistance config < 0 \<and> 0 < height config \<longrightarrow>
          sample_points config s = Some (Inl RangeError)
          \<or> sample_points config s = Some (Inl TypeError)"
  proof
    assume a: "minDistance config < 0 \<and> 0 < height config"
    then have "config_gridHeight config \<le> 0"
      by (intro negative_distance_rows) simp_all
    moreover have "firstRow config s < 0 \<or> 0 \<le> firstRow config s"
      by linarith
    ultimately show "sample_points config s = Some (Inl RangeError)
          \<or> sample_points config s = Some (Inl TypeError)"
      unfolding eq by auto
  qed
qed

theorem sample_unvalidated_witness:
  "sample_points \<lparr>width = 800, height = 600, minDistance = 0, maxAttempts = None, centerBias = None\<rparr>
      (createRandom 1337) = Some (Inl RangeError)
   \<and> sample_points \<lparr>width = 800, height = 0, minDistance = 8, maxAttempts = None, centerBias = None\<rparr>
      (createRandom 1337) = Some (Inl TypeError)
   \<and> sample_points \<lparr>width = 800, height = - 600, minDistance = 8, maxAttempts = None, centerBias = None\<rparr>
      (createRandom 1337) = Some (Inl RangeError)
   \<and> sample_points \<lparr>width = 800, height = 600, minDistance = - 8, maxAttempts = None, centerBias = None\<rparr>
      (createRandom 1337) = Some (Inl RangeError)
   \<and> sample_points \<lparr>width = - 800, height = 600, minDistance = 8, maxAttempts = None, centerBias = None\<rparr>
      (createRandom 1337) = Some (Inl RangeError)
   \<and> sample_points \<lparr>width = 1, height = 1, minDistance = 100, maxAttempts = Some 0, centerBias = None\<rparr>
      (createRandom 1337) = Some (Inr [\<lparr>px = 0, py = 0\<rparr>])
   \<and> sample_points \<lparr>width = 0, height = 1, minDistance = 100, maxAttempts = None, centerBias = None\<rparr>
      (createRandom 1337) = Some (Inr [\<lparr>px = 0, py = 0\<rparr>])
   \<and> sample_points \<lparr>width = - 1, height = - 1, minDistance = - 100, maxAttempts = None, centerBias = None\<rparr>
      (createRandom 1337) = Some (Inr [\<lparr>px = 0, py = 0\<rparr>])"
proof -
  let ?s = "createRandom 1337"
  let ?z = "\<lparr>width = 800, height = 600, minDistance = 0, maxAttempts = None, centerBias = None\<rparr>"
  let ?h0 = "\<lparr>width = 800, height = 0, minDistance = 8, maxAttempts = None, centerBias = None\<rparr>"
  let ?hn = "\<lparr>width = 800, height = - 600, minDistance = 8, maxAttempts = None, centerBias = None\<rparr>"
  let ?dn = "\<lparr>width = 800, height = 600, minDistance = - 8, maxAttempts = None, centerBias = None\<rparr>"
  let ?wn = "\<lparr>width = - 800, height = 600, minDistance = 8, maxAttempts = None, centerBias = None\<rparr>"
  let ?a = "\<lparr>width = 1, height = 1, minDistance = 100, maxAttempts = Some 0, centerBias = None\<rparr>"
  let ?b = "\<lparr>width = 0, height = 1, minDistance = 100, maxAttempts = None, centerBias = None\<rparr>"
  let ?n = "\<lparr>width = - 1, height = - 1, minDistance = - 100, maxAttempts = None, centerBias = None\<rparr>"
  have 1: "sample_points ?z ?s = Some (Inl RangeError)"
    using sample_unvalidated [of ?z ?s] by simp
  have "config_gridHeight ?h0 = 0"
    by (simp add: config_gridHeight_def)
  moreover have "firstRow ?h0 ?s < 0 \<or> 0 \<le> firstRow ?h0 ?s"
    by linarith
  ultimately have 2: "sample_points ?h0 ?s = Some (Inl TypeError)"
    using sample_unvalidated [of ?h0 ?s] by (simp add: valid_array_length_def)
  have "config_gridHeight ?hn < 0"
    by (rule negative_height_grid; simp)
  then have 3: "sample_points ?hn ?s = Some (Inl RangeError)"
    using sample_unvalidated [of ?hn ?s] by (simp add: valid_array_length_def)
  have "config_gridHeight ?dn < 0"
    by (rule negative_distance_grid; simp)
  then have 4: "sample_points ?dn ?s = Some (Inl RangeError)"
    using sample_unvalidated [of ?dn ?s] by (simp add: valid_array_length_def)
  have "0 < config_gridHeight ?wn" "config_gridHeight ?wn \<le> 4294967295" "config_gridWidth ?wn < 0"
    by (rule negative_width_grid; simp)+
  then have 5: "sample_points ?wn ?s = Some (Inl RangeError)"
    using sample_unvalidated [of ?wn ?s] by (simp add: valid_array_length_def)
  have ga: "config_gridWidth ?a = 1" "config_gridHeight ?a = 1" "firstRow ?a ?s = 0"
    by (rule degenerate_grid; simp)+
  have 6: "sample_points ?a ?s = Some (Inr [\<lparr>px = 0, py = 0\<rparr>])"
    using sample_unvalidated [of ?a ?s]
    by (simp add: config_maxAttempts_def ga valid_array_length_def first_point_1337)
  have gb: "config_gridWidth ?b = 0" "config_gridHeight ?b = 1" "firstRow ?b ?s = 0"
    by (rule zero_width_grid; simp)+
  have 7: "sample_points ?b ?s = Some (Inr [\<lparr>px = 0, py = 0\<rparr>])"
    using sample_unvalidated [of ?b ?s] by (simp add: gb valid_array_length_def first_point_1337)
  have gn: "config_gridWidth ?n = 1" "config_gridHeight ?n = 1" "firstRow ?n ?s = 0"
    by (rule all_negative_grid [where s = "createRandom 1337"]; simp add: first_point_1337)+
  have 8: "sample_points ?n ?s = Some (Inr [\<lparr>px = 0, py = 0\<rparr>])"
    using sample_unvalidated [of ?n ?s] by (simp add: gn valid_array_length_def first_point_1337)
  from 1 2 3 4 5 6 7 8 show ?thesis
    by blast
qed

section \<open>Claims about the layers and the scene\<close>

text \<open>
  C5 as stated fails for the nebula layer. For the one point (400, 300) on an 800 by 600
  canvas, from seed 1337, the loop of the nebula layer makes 16 draws: the radius, two
  opacities, the number of streaks (3), and for each streak a width, a length, an angle and
  an opacity. No colour is drawn.
\<close>

theorem nebula_layer_draws:
  "nebula_patches 800 600 [\<lparr>px = 400, py = 300\<rparr>] (createRandom 1337) =
     ([Patch \<lparr>patch_x = 400, patch_y = 300,
              patch_radius = (draw 1337 0 * 0.07 + 0.28) * 600,
              nebula_alpha = draw 1337 1 * 0.05 + 0.03,
              noise_alpha = draw 1337 2 * 0.04 + 0.06,
              streaks =
                [\<lparr>streak_width = 9,
                  streak_length = (draw 1337 5 + 0.5) * ((draw 1337 0 * 0.07 + 0.28) * 600),
                  streak_angle = draw 1337 6 * (pi * 2),
                  streak_alpha = draw 1337 7 * 0.05 + 0.05\<rparr>,
                 \<lparr>streak_width = 10,
                  streak_length = (draw 1337 9 + 0.5) * ((draw 1337 0 * 0.07 + 0.28) * 600),
                  streak_angle = draw 1337 10 * (pi * 2),
                  streak_alpha = draw 1337 11 * 0.05 + 0.05\<rparr>,
                 \<lparr>streak_width = 10,
                  streak_length = (draw 1337 13 + 0.5) * ((draw 1337 0 * 0.07 + 0.28) * 600),
                  streak_angle = draw 1337 14 * (pi * 2),
                  streak_alpha = draw 1337 15 * 0.05 + 0.05\<rparr>]\<rparr>],
      state_after 1337 16)"
  unfolding state_after_0 using draws_1337
  by (simp add: createNebulaPatch_def createRibbonStreak_def snap_id nextFloat_after
      nextInt_after Let_def eval_nat_numeral algebra_simps)

text \<open>
  C5, amended. The loops of the star layers and of the sparkles are the layer generator of
  the specification: the points are taken in their order, one record per point at the point's
  position; for each point the size is drawn first, the colour from the state the size left,
  the alpha from the state the colour left (three draws, or four when the colour of a star
  takes a second one); and the records of the first points of a list do not depend on the
  points after them, which start from the state the first ones left.

  The loop of the nebula layer takes the points in their order in the same way, but what it
  draws for a point is a radius, the opacity of the gradient, the opacity of the noise
  overlay, a number of streaks from 2 to 4, and for each streak a width, a length, an angle
  and an opacity: four draws and four more for every streak, and no colour.
\<close>

theorem layer_draw_order:
  "star_sprites layer points s =
     spec_generate_layer (spec_placement (star_size_draw layer)
        (star_color_draw layer SPACE_PALETTE) (star_alpha_draw layer)) points s
   \<and> sparkle_sprites points s =
     spec_generate_layer (spec_placement sparkle_size_draw
        (sparkle_color_draw SPACE_PALETTE) sparkle_alpha_draw) points s
   \<and> map (\<lambda>sp. (sprite_x sp, sprite_y sp)) (fst (star_sprites layer points s))
       = map (\<lambda>p. (px p, py p)) points
   \<and> map (\<lambda>sp. (sprite_x sp, sprite_y sp)) (fst (sparkle_sprites points s))
       = map (\<lambda>p. (px p, py p)) points
   \<and> star_sprites layer (points @ later) s =
       (let (rs, s1) = star_sprites layer points s;
            (rs', s2) = star_sprites layer later s1
        in (rs @ rs', s2))
   \<and> sparkle_sprites (points @ later) s =
       (let (rs, s1) = sparkle_sprites points s;
            (rs', s2) = sparkle_sprites later s1
        in (rs @ rs', s2))
   \<and> (snd (spec_placement (star_size_draw layer) (star_color_draw layer SPACE_PALETTE)
              (star_alpha_draw layer) point s) = (next_state ^^ 3) s
        \<or> snd (spec_placement (star_size_draw layer) (star_color_draw layer SPACE_PALETTE)
              (star_alpha_draw layer) point s) = (next_state ^^ 4) s)
   \<and> snd (spec_placement sparkle_size_draw (sparkle_color_draw SPACE_PALETTE) sparkle_alpha_draw
              point s) = (next_state ^^ 3) s
   \<and> nebula_patches W H points s = spec_generate_layer (nebula_placement W H) points s
   \<and> nebula_patches W H (points @ later) s =
       (let (rs, s1) = nebula_patches W H points s;
            (rs', s2) = nebula_patches W H later s1
        in (rs @ rs', s2))
   \<and> snd (nebula_placement W H point s)
       = (next_state ^^ (4 * nat (fst (nextInt 2 5 ((next_state ^^ 3) s))))) ((next_state ^^ 4) s)
   \<and> 2 \<le> fst (nextInt 2 5 ((next_state ^^ 3) s)) \<and> fst (nextInt 2 5 ((next_state ^^ 3) s)) < 5"
proof -
  have "2 \<le> fst (nextInt 2 5 ((next_state ^^ 3) s))" "fst (nextInt 2 5 ((next_state ^^ 3) s)) < 5"
    by (rule nextInt_range; simp)+
  then show ?thesis
    using star_placement_draws [of layer point s]
    by (simp only: star_sprites_spec sparkle_sprites_spec nebula_patches_spec
        spec_generate_layer_positions spec_generate_layer_append sparkle_placement_draws
        nebula_placement_draws simp_thms)
qed

text \<open>
  C1. The layers that \<open>regenerate\<close> leaves are a function of the seed and of the width and
  height of the canvas: whatever the layers held before, the same seed on the same canvas gives
  the same outcome, layer by layer and record by record; a second run from the layers of the
  first one gives them again.
\<close>

theorem regenerate_deterministic:
  "regenerate seed W H before = regenerate seed W H before'
   \<and> (case regenerate seed W H before of
         Some (Inr layers) \<Rightarrow> regenerate seed W H layers = Some (Inr layers)
       | Some (Inl e) \<Rightarrow> True
       | None \<Rightarrow> True)"
proof -
  have eq: "regenerate seed W H a = regenerate seed W H b" for a b
    by (simp add: regenerate_def clearLayer_def)
  show ?thesis
  proof (cases "regenerate seed W H before")
    case None
    with eq [of before before'] show ?thesis
      by simp
  next
    case (Some r)
    show ?thesis
    proof (cases r)
      case (Inl e)
      with Some eq [of before before'] show ?thesis
        by simp
    next
      case (Inr layers)
      with Some eq [of before before'] eq [of layers before] show ?thesis
        by simp
    qed
  qed
qed

theorem regenerate_deterministic_witness:
  "\<exists>layers. regenerate 1337 800 600 \<lparr>nebula = [], sparkle = [], small = [], micro = []\<rparr>
               = Some (Inr layers)
     \<and> regenerate 1337 800 600 layers = Some (Inr layers)"
proof -
  let ?e = "\<lparr>nebula = [], sparkle = [], small = [], micro = []\<rparr>"
  obtain layers where l: "regenerate 1337 800 600 ?e = Some (Inr layers)"
    using regenerate_returns [of 800 600 1337 ?e] by auto
  with regenerate_deterministic [of 1337 800 600 ?e ?e] show ?thesis
    by simp
qed

end
